theory Spec2Isabelle
  imports Main "HOL-Library.Word"
begin

unbundle bit_operations_syntax

section \<open>Data model of the worker package\<close>

text \<open>
  Go strings and byte slices are byte sequences; both are lists of 8-bit words here.
  A nil slice and an empty slice are indistinguishable to the code modelled
  (it only takes \<open>len\<close>), so both are the empty list.
\<close>

type_synonym byte = "8 word"
type_synonym gostring = "byte list"

text \<open>
  Packet types. \<open>rt.PT\<close> and its constants live in \<open>pkg/runtime\<close>, which is not among
  the sources; the datatype lists the constants the worker package names, and
  \<open>PT_Other\<close> stands for every other type code.
\<close>

datatype PT =
    PT_CanDo | PT_CantDo | PT_CanDoTimeout | PT_ResetAbilities | PT_SetClientId
  | PT_NoJob | PT_Noop | PT_JobAssign | PT_JobAssignUniq
  | PT_WorkData | PT_WorkWarning | PT_WorkStatus
  | PT_WorkComplete | PT_WorkFail | PT_WorkException
  | PT_Error | PT_EchoReq | PT_EchoRes
  | PT_Other "32 word"

text \<open>
  Go \<open>error\<close> values: the four sentinels of the worker package, one constructor per
  \<open>fmt.Errorf\<close> site (carrying the formatted argument), and \<open>UserError\<close> for any
  error made by code outside the package (user functions, the network, the runtime).
\<close>

datatype error =
    ErrNoneAgents | ErrNoneFuncs | ErrTimeOut | ErrUnknown
  | ErrFuncExists gostring        \<comment> \<open>"The function already exists: %s"\<close>
  | ErrFuncNotExist gostring      \<comment> \<open>"The function does not exist: %s"\<close>
  | ErrInvalidData gostring       \<comment> \<open>"Invalid data: %v"\<close>
  | ErrNotEnoughData gostring     \<comment> \<open>"Not enough data: %v"\<close>
  | UserError string

text \<open>
  \<open>inPack\<close>: a packet received from a server. The Go struct also holds \<open>a *agent\<close>, the
  connection the packet arrived on, which the agent sets after decoding; the only use
  the modelled code makes of it is \<open>inpack.a.Write(outpack)\<close> in \<open>exec\<close>, whose
  effect is the list of packets that \<open>exec\<close> returns as written.
\<close>

record inPack =
  dataType :: PT
  data :: "byte list"
  handle :: gostring
  uniqueId :: gostring
  fn :: gostring

text \<open>
  \<open>outPack\<close>: a packet to send. Its declaration is not among the sources; the fields
  are the three that the worker assigns (\<open>dataType\<close>, \<open>data\<close>, \<open>handle\<close>), and
  \<open>getOutPack\<close> returns the zero packet, whose type every caller overwrites.
\<close>

record outPack =
  dataType :: PT
  data :: "byte list"
  handle :: gostring

text \<open>
  What a user-supplied \<open>JobFunc\<close> does with a job: it returns \<open>(data, err)\<close> after
  some nanoseconds, panics after some nanoseconds, or never comes back.
  A panic value either is a Go \<open>error\<close> (the type assertion \<open>r.(error)\<close> succeeds)
  or is any other value.
\<close>

datatype panic_value = PanicError error | PanicOther string

datatype behaviour =
    Returns nat "byte list" "error option"
  | Panics nat panic_value
  | Blocks

type_synonym JobFunc = "inPack \<Rightarrow> behaviour"

record jobFunc =
  f :: JobFunc
  timeout :: "32 word"

text \<open>
  \<open>jobFuncs\<close> is a Go map from function name to \<open>*jobFunc\<close>: an association list
  with distinct keys. Go leaves the iteration order of a map open, so every loop over
  the table takes the order of the keys as an argument.
\<close>

type_synonym jobFuncs = "(gostring \<times> jobFunc) list"

record agent =
  net :: gostring
  addr :: gostring

text \<open>
  The worker. \<open>once_done\<close> is the state of \<open>sync.Once\<close>; \<open>activeJobs\<close> is the counter of
  the wait group. The mutex, the channel \<open>in\<close> and the semaphore \<open>limit\<close> order
  goroutines and hold no data that the modelled functions compute with.
\<close>

record Worker =
  agents :: "agent list"
  funcs :: jobFuncs
  running :: bool
  ready :: bool
  shuttingDown :: bool
  activeJobs :: int
  once_done :: bool
  Id :: gostring

text \<open>
  A write is a packet handed to one agent's connection (\<open>agent.write\<close>). Every function
  below that sends returns the writes it made, in order.
\<close>

type_synonym writes = "(agent \<times> outPack) list"

section \<open>Registering functions\<close>

definition New :: "Worker" where
  "New = \<lparr>agents = [], funcs = [], running = False, ready = False,
          shuttingDown = False, activeJobs = 0, once_done = False, Id = []\<rparr>"

definition broadcast :: "Worker \<Rightarrow> outPack \<Rightarrow> writes" where
  "broadcast worker outpack = map (\<lambda>v. (v, outpack)) (agents worker)"

subsection \<open>Buffers and big-endian integers\<close>

text \<open>
  Modelled from the spec: \<open>rt.NewBuffer\<close> (\<open>pkg/runtime\<close> is not among the sources),
  the exact-sized zeroed buffer that "writers allocate".
\<close>

definition NewBuffer :: "nat \<Rightarrow> byte list" where
  "NewBuffer l = replicate l 0"

text \<open>Go's \<open>copy(dst, src)\<close>: overwrites the first \<open>min (len dst) (len src)\<close> bytes of \<open>dst\<close>.\<close>

definition copy :: "byte list \<Rightarrow> byte list \<Rightarrow> byte list" where
  "copy dst src = take (length dst) src @ drop (length src) dst"

text \<open>\<open>s[lo:hi]\<close> for \<open>lo \<le> hi \<le> len s\<close>, which every use below guards.\<close>

definition slice :: "'a list \<Rightarrow> nat \<Rightarrow> nat \<Rightarrow> 'a list" where
  "slice s lo hi = take (hi - lo) (drop lo s)"

text \<open>
  \<open>binary.BigEndian.Uint32(b)\<close> and \<open>binary.BigEndian.PutUint32(b, v)\<close>. Both panic
  in Go when \<open>len b < 4\<close>; every call below is on a slice of at least four bytes.
  \<open>PutUint32\<close> gives the four bytes written; \<open>PutUint32_at\<close> writes them into a
  buffer at an offset (\<open>PutUint32(buf[off:], v)\<close>).
\<close>

definition Uint32 :: "byte list \<Rightarrow> 32 word" where
  "Uint32 b = (ucast (b ! 3) OR push_bit 8 (ucast (b ! 2)) OR
               push_bit 16 (ucast (b ! 1)) OR push_bit 24 (ucast (b ! 0)))"

definition PutUint32 :: "32 word \<Rightarrow> byte list" where
  "PutUint32 v = [ucast (drop_bit 24 v), ucast (drop_bit 16 v), ucast (drop_bit 8 v), ucast v]"

definition PutUint32_at :: "byte list \<Rightarrow> nat \<Rightarrow> 32 word \<Rightarrow> byte list" where
  "PutUint32_at buf off v = take off buf @ copy (drop off buf) (PutUint32 v)"

subsection \<open>AddFunc, RemoveFunc and the packets they send\<close>

definition prepFuncOutpack :: "gostring \<Rightarrow> 32 word \<Rightarrow> outPack" where
  "prepFuncOutpack funcname tmo =
     (if tmo = 0 then \<lparr>outPack.dataType = PT_CanDo, outPack.data = funcname, outPack.handle = []\<rparr>
      else
        let l = length funcname;
            buf = NewBuffer (l + 5);
            buf = copy buf funcname;
            buf = buf[l := 0];
            buf = PutUint32_at buf (l + 1) tmo
        in \<lparr>outPack.dataType = PT_CanDoTimeout, outPack.data = buf, outPack.handle = []\<rparr>)"

definition addFunc :: "Worker \<Rightarrow> gostring \<Rightarrow> 32 word \<Rightarrow> writes" where
  "addFunc worker funcname tmo = broadcast worker (prepFuncOutpack funcname tmo)"

definition AddFunc :: "Worker \<Rightarrow> gostring \<Rightarrow> JobFunc \<Rightarrow> 32 word \<Rightarrow> Worker \<times> error option \<times> writes" where
  "AddFunc worker funcname fu tmo =
     (case map_of (funcs worker) funcname of
        Some _ \<Rightarrow> (worker, Some (ErrFuncExists funcname), [])
      | None \<Rightarrow>
          let worker' = worker\<lparr>funcs := funcs worker @ [(funcname, \<lparr>f = fu, timeout = tmo\<rparr>)]\<rparr>
          in (worker', None, if running worker' then addFunc worker' funcname tmo else []))"

definition removeFunc :: "Worker \<Rightarrow> gostring \<Rightarrow> writes" where
  "removeFunc worker funcname =
     broadcast worker \<lparr>outPack.dataType = PT_CantDo, outPack.data = funcname, outPack.handle = []\<rparr>"

definition RemoveFunc :: "Worker \<Rightarrow> gostring \<Rightarrow> Worker \<times> error option \<times> writes" where
  "RemoveFunc worker funcname =
     (case map_of (funcs worker) funcname of
        None \<Rightarrow> (worker, Some (ErrFuncNotExist funcname), [])
      | Some _ \<Rightarrow>
          let worker' = worker\<lparr>funcs := filter (\<lambda>(k, _). k \<noteq> funcname) (funcs worker)\<rparr>
          in (worker', None, if running worker' then removeFunc worker' funcname else []))"

section \<open>Executing a job\<close>

text \<open>The inner result of running a user function.\<close>

record result =
  data :: "byte list"
  err :: "error option"

text \<open>
  \<open>execTimeout\<close> runs the user function in a goroutine that sends its result on an
  unbuffered channel, and selects between that channel and \<open>time.After(timeout)\<close>.
  The goroutine recovers every panic and then sends nothing, so after a panic, as
  after a function that never comes back, only the timer can fire. \<open>tmo\<close> is the
  duration in nanoseconds. When the result and the timer fall on the same instant
  Go's \<open>select\<close> takes either; \<open>pick\<close> is that choice (true: the result).
\<close>

definition execTimeout :: "JobFunc \<Rightarrow> inPack \<Rightarrow> nat \<Rightarrow> bool \<Rightarrow> result" where
  "execTimeout fu job tmo pick =
     (case fu job of
        Returns t d e \<Rightarrow>
          if t < tmo \<or> (t = tmo \<and> pick) then \<lparr>data = d, err = e\<rparr>
          else \<lparr>data = [], err = Some ErrTimeOut\<rparr>
      | Panics t v \<Rightarrow> \<lparr>data = [], err = Some ErrTimeOut\<rparr>
      | Blocks \<Rightarrow> \<lparr>data = [], err = Some ErrTimeOut\<rparr>)"

text \<open>\<open>time.Second\<close>, in nanoseconds (the unit of \<open>time.Duration\<close>).\<close>

definition Second :: nat where
  "Second = 1000000000"

text \<open>
  The deferred function of \<open>exec\<close>: it decrements the job counter and turns a
  recovered panic value into the returned error.
\<close>

definition exec_done :: "Worker \<Rightarrow> Worker" where
  "exec_done worker = worker\<lparr>activeJobs := activeJobs worker - 1\<rparr>"

fun recovered :: "panic_value \<Rightarrow> error" where
  "recovered (PanicError e) = e"
| "recovered (PanicOther v) = ErrUnknown"

text \<open>
  Lines 349 to 365 of \<open>exec\<close>: what is sent, and returned, once the result \<open>r\<close> is there.
  The packets are those passed to \<open>inpack.a.Write\<close>.
\<close>

definition exec_send :: "Worker \<Rightarrow> inPack \<Rightarrow> result \<Rightarrow> error option \<times> outPack list" where
  "exec_send worker inpack r =
     (if running worker then
        (if result.err r = None
         then (None, [\<lparr>outPack.dataType = PT_WorkComplete, outPack.data = result.data r,
                  outPack.handle = inPack.handle inpack\<rparr>])
         else if length (result.data r) = 0
         then (result.err r, [\<lparr>outPack.dataType = PT_WorkFail, outPack.data = result.data r,
                  outPack.handle = inPack.handle inpack\<rparr>])
         else (result.err r, [\<lparr>outPack.dataType = PT_WorkException, outPack.data = result.data r,
                  outPack.handle = inPack.handle inpack\<rparr>]))
      else (None, []))"

text \<open>
  \<open>Worker.exec\<close>. The value is \<open>None\<close> when \<open>exec\<close> never returns (a user function
  without timeout that never comes back); otherwise the worker afterwards, the returned
  error and the packets written to the job's agent.
\<close>

definition exec :: "Worker \<Rightarrow> bool \<Rightarrow> inPack \<Rightarrow> (Worker \<times> error option \<times> outPack list) option" where
  "exec worker pick inpack =
     (let worker = worker\<lparr>activeJobs := activeJobs worker + 1\<rparr> in
      if shuttingDown worker then Some (exec_done worker, None, [])
      else
        case map_of (funcs worker) (fn inpack) of
          None \<Rightarrow> Some (exec_done worker, Some (ErrFuncNotExist (fn inpack)), [])
        | Some jf \<Rightarrow>
            if timeout jf = 0 then
              (case f jf inpack of
                 Returns t d e \<Rightarrow>
                   Some (exec_done worker, exec_send worker inpack \<lparr>data = d, err = e\<rparr>)
               | Panics t v \<Rightarrow> Some (exec_done worker, Some (recovered v), [])
               | Blocks \<Rightarrow> None)
            else
              Some (exec_done worker,
                    exec_send worker inpack
                      (execTimeout (f jf) inpack (unat (timeout jf) * Second) pick)))"

section \<open>Registration with the servers\<close>

text \<open>
  \<open>for funcname, f := range worker.funcs\<close>: the loop visits the keys in the order
  \<open>order\<close> that the Go runtime happens to choose.
\<close>

definition range_funcs :: "jobFuncs \<Rightarrow> gostring list \<Rightarrow> (gostring \<times> jobFunc) list" where
  "range_funcs fs order = List.map_filter (\<lambda>k. map_option (\<lambda>jf. (k, jf)) (map_of fs k)) order"

definition reRegisterFuncsForAgent :: "Worker \<Rightarrow> gostring list \<Rightarrow> agent \<Rightarrow> writes" where
  "reRegisterFuncsForAgent worker order a =
     map (\<lambda>(funcname, jf). (a, prepFuncOutpack funcname (timeout jf)))
       (range_funcs (funcs worker) order)"

text \<open>
  \<open>a.Connect()\<close> for each agent in turn, stopping at the first error. \<open>agent.Connect\<close>
  is not among the sources: \<open>connect\<close> gives its result for each agent.
\<close>

fun connect_agents :: "(agent \<Rightarrow> error option) \<Rightarrow> agent list \<Rightarrow> error option" where
  "connect_agents connect [] = None"
| "connect_agents connect (a # as) =
     (case connect a of Some e \<Rightarrow> Some e | None \<Rightarrow> connect_agents connect as)"

text \<open>
  The function that \<open>Ready\<close> passes to \<open>once.Do\<close>: \<open>addFunc\<close> for every function of
  the table.
\<close>

definition register_all :: "Worker \<Rightarrow> gostring list \<Rightarrow> writes" where
  "register_all worker order =
     concat (map (\<lambda>(funcname, jf). addFunc worker funcname (timeout jf))
               (range_funcs (funcs worker) order))"

text \<open>
  \<open>Worker.Ready\<close>: the worker afterwards, the returned error, and the writes made by
  the function passed to \<open>once.Do\<close> (none when it does not run).
\<close>

definition Ready :: "Worker \<Rightarrow> (agent \<Rightarrow> error option) \<Rightarrow> gostring list \<Rightarrow>
                     Worker \<times> error option \<times> writes" where
  "Ready worker connect order =
     (if length (agents worker) = 0 then (worker, Some ErrNoneAgents, [])
      else if length (funcs worker) = 0 then (worker, Some ErrNoneFuncs, [])
      else
        case connect_agents connect (agents worker) of
          Some e \<Rightarrow> (worker, Some e, [])
        | None \<Rightarrow>
            if once_done worker then (worker\<lparr>ready := True\<rparr>, None, [])
            else (worker\<lparr>once_done := True, ready := True\<rparr>, None, register_all worker order))"

text \<open>
  A sequence of calls to \<open>Ready\<close>, each with the results of its connection attempts and
  its iteration order: the worker at the end, and for each call its error and its writes.
\<close>

fun Ready_calls :: "Worker \<Rightarrow> ((agent \<Rightarrow> error option) \<times> gostring list) list \<Rightarrow>
                     Worker \<times> (error option \<times> writes) list" where
  "Ready_calls worker [] = (worker, [])"
| "Ready_calls worker ((connect, order) # cs) =
     (case Ready worker connect order of
        (worker', e, ws) \<Rightarrow>
          (case Ready_calls worker' cs of (worker'', rs) \<Rightarrow> (worker'', (e, ws) # rs)))"

section \<open>Decoding packets\<close>

text \<open>
  \<open>rt.MinPacketLength\<close> is declared in \<open>pkg/runtime\<close>; its value is the one the
  comment at its use gives ("valid package should not less 12 bytes").
\<close>

definition MinPacketLength :: nat where
  "MinPacketLength = 12"

text \<open>
  \<open>bytes.IndexByte\<close>, and \<open>bytes.SplitN(s, sep, n)\<close> for a separator of one byte (the
  program only splits on \<open>[]byte{'\\x00'}\<close>): at most \<open>n\<close> pieces, the last one
  the unsplit rest.
\<close>

fun IndexByte :: "byte list \<Rightarrow> byte \<Rightarrow> nat option" where
  "IndexByte [] c = None"
| "IndexByte (x # xs) c = (if x = c then Some 0 else map_option Suc (IndexByte xs c))"

fun SplitN :: "byte list \<Rightarrow> byte \<Rightarrow> nat \<Rightarrow> byte list list" where
  "SplitN s sep 0 = []"
| "SplitN s sep (Suc 0) = [s]"
| "SplitN s sep (Suc (Suc n)) =
     (case IndexByte s sep of
        None \<Rightarrow> [s]
      | Some m \<Rightarrow> take m s # SplitN (drop (m + 1) s) sep (Suc n))"

text \<open>
  \<open>decodeInPack\<close> returns \<open>(inpack, l, err)\<close>; \<open>None\<close> is the nil packet.
  \<open>rt.NewPT\<close> lives in \<open>pkg/runtime\<close> and is an argument: it gives a packet type and
  an error for a type code. The length read from the header is an \<open>int\<close> made from a
  \<open>uint32\<close>, which on a 64-bit platform is the same number.
\<close>

definition decodeInPack :: "(32 word \<Rightarrow> PT \<times> error option) \<Rightarrow> byte list \<Rightarrow>
                            inPack option \<times> nat \<times> error option" where
  "decodeInPack NewPT dat =
     (if length dat < MinPacketLength then (None, 0, Some (ErrInvalidData dat))
      else
        let dl = unat (Uint32 (slice dat 8 12)) in
        if length dat < dl + MinPacketLength then (None, 0, Some (ErrNotEnoughData dat))
        else
          let dt = slice dat MinPacketLength (dl + MinPacketLength) in
          if length dt \<noteq> dl then (None, 0, Some (ErrInvalidData dat))
          else
            let (pt, e) = NewPT (Uint32 (slice dat 4 8));
                inpack = \<lparr>inPack.dataType = pt, inPack.data = [], inPack.handle = [],
                          uniqueId = [], fn = []\<rparr>
            in
            if e \<noteq> None then (Some inpack, 0, e)
            else
              (Some
                (case pt of
                   PT_JobAssign \<Rightarrow>
                     (case SplitN dt 0 3 of
                        [s0, s1, s2] \<Rightarrow>
                          inpack\<lparr>inPack.handle := s0, fn := s1, inPack.data := s2\<rparr>
                      | _ \<Rightarrow> inpack)
                 | PT_JobAssignUniq \<Rightarrow>
                     (case SplitN dt 0 4 of
                        [s0, s1, s2, s3] \<Rightarrow>
                          inpack\<lparr>inPack.handle := s0, fn := s1, uniqueId := s2, inPack.data := s3\<rparr>
                      | _ \<Rightarrow> inpack)
                 | _ \<Rightarrow> inpack\<lparr>inPack.data := dt\<rparr>),
               dl + MinPacketLength, None))"

section \<open>The worker command: the persistent subprocess\<close>

subsection \<open>Functions of the Go library\<close>

definition NL :: byte where
  "NL = 10"

definition CR :: byte where
  "CR = 13"

text \<open>
  \<open>strings.HasSuffix\<close>, \<open>strings.TrimSuffix\<close>, \<open>strings.Join\<close>, and \<open>strings.Split\<close> for a
  separator of one byte (\<open>genSplit\<close> with \<open>n = Count(s, sep) + 1\<close>).
\<close>

definition HasSuffix :: "byte list \<Rightarrow> byte list \<Rightarrow> bool" where
  "HasSuffix s suffix =
     (length suffix \<le> length s \<and> drop (length s - length suffix) s = suffix)"

definition TrimSuffix :: "byte list \<Rightarrow> byte list \<Rightarrow> byte list" where
  "TrimSuffix s suffix = (if HasSuffix s suffix then take (length s - length suffix) s else s)"

fun Join :: "byte list list \<Rightarrow> byte list \<Rightarrow> byte list" where
  "Join [] sep = []"
| "Join [e] sep = e"
| "Join (e # es) sep = e @ sep @ Join es sep"

definition Split :: "byte list \<Rightarrow> byte \<Rightarrow> byte list list" where
  "Split s sep = SplitN s sep (length (filter (\<lambda>c. c = sep) s) + 1)"

text \<open>
  \<open>strings.TrimSpace\<close> removes the leading and the trailing white space that
  \<open>unicode.IsSpace\<close> recognises in the UTF-8 reading of the string: the six ASCII
  characters tab, line feed, vertical tab, form feed, carriage return and space, and
  the code points U+0085, U+00A0, U+1680, U+2000 to U+200A, U+2028, U+2029, U+202F,
  U+205F and U+3000, given here by their UTF-8 encodings. A byte that does not start
  one of these encodings stops the trimming.
\<close>

definition spaces :: "byte list list" where
  "spaces =
     [[9], [10], [11], [12], [13], [32],
      [0xC2, 0x85], [0xC2, 0xA0], [0xE1, 0x9A, 0x80],
      [0xE2, 0x80, 0x80], [0xE2, 0x80, 0x81], [0xE2, 0x80, 0x82], [0xE2, 0x80, 0x83],
      [0xE2, 0x80, 0x84], [0xE2, 0x80, 0x85], [0xE2, 0x80, 0x86], [0xE2, 0x80, 0x87],
      [0xE2, 0x80, 0x88], [0xE2, 0x80, 0x89], [0xE2, 0x80, 0x8A],
      [0xE2, 0x80, 0xA8], [0xE2, 0x80, 0xA9], [0xE2, 0x80, 0xAF], [0xE2, 0x81, 0x9F],
      [0xE3, 0x80, 0x80]]"

text \<open>The width of the white-space character that \<open>s\<close> starts with, 0 when there is none.\<close>

definition space_width :: "byte list list \<Rightarrow> byte list \<Rightarrow> nat" where
  "space_width sps s =
     (case find (\<lambda>w. w \<noteq> [] \<and> take (length w) s = w) sps of
        None \<Rightarrow> 0
      | Some w \<Rightarrow> length w)"

function TrimLeft :: "byte list list \<Rightarrow> byte list \<Rightarrow> byte list" where
  "TrimLeft sps s =
     (if space_width sps s = 0 then s else TrimLeft sps (drop (space_width sps s) s))"
  by pat_completeness auto
termination
proof (relation "measure (\<lambda>(sps, s). length s)", goal_cases)
  case 1
  show ?case by simp
next
  case (2 sps s)
  then obtain w where w: "find (\<lambda>w. w \<noteq> [] \<and> take (length w) s = w) sps = Some w"
    by (auto simp: space_width_def split: option.splits)
  then have "w \<noteq> []" and "take (length w) s = w"
    by (auto simp: find_Some_iff)
  then have "s \<noteq> []" by auto
  with 2 show ?case by simp
qed

declare TrimLeft.simps [simp del]

text \<open>Trailing white space: the same on the reversed string, with the encodings reversed.\<close>

definition TrimRight :: "byte list list \<Rightarrow> byte list \<Rightarrow> byte list" where
  "TrimRight sps s = rev (TrimLeft (map rev sps) (rev s))"

definition TrimSpace :: "byte list \<Rightarrow> byte list" where
  "TrimSpace s = TrimRight spaces (TrimLeft spaces s)"

text \<open>
  \<open>bufio.Reader.ReadString(delim)\<close> on the bytes that the subprocess still writes to its
  standard output before closing it: the bytes up to and including the first \<open>delim\<close>
  and what is left, or, when no \<open>delim\<close> comes, everything with the error \<open>io.EOF\<close>
  (the second component \<open>None\<close>).
\<close>

definition ReadString :: "byte list \<Rightarrow> byte \<Rightarrow> byte list \<times> byte list option" where
  "ReadString out delim =
     (case IndexByte out delim of
        Some i \<Rightarrow> (take (i + 1) out, Some (drop (i + 1) out))
      | None \<Rightarrow> (out, None))"

subsection \<open>processJobWithPersistentSubprocess\<close>

text \<open>
  The subprocess as the handler sees it: whether it has exited, how many writes to its
  standard input succeed (\<open>None\<close>: all of them), and the bytes it writes to its standard
  output from now on.
\<close>

record subprocess =
  exited :: bool
  writes_ok :: "nat option"
  stdout_data :: "byte list"

datatype cli_error =
    ErrSubprocessExited        \<comment> \<open>"subprocess has exited"\<close>
  | ErrWriteStdin              \<comment> \<open>"failed to write to stdin: %v"\<close>
  | ErrWriteNewline            \<comment> \<open>"failed to write newline to stdin: %v"\<close>
  | ErrReadStdout              \<comment> \<open>"failed to read from stdout: %v"\<close>

text \<open>
  The loop over \<open>inputLines\<close>: an empty line is skipped, every other line reads one line
  of output and appends it, without its newline, to \<open>results\<close>.
\<close>

fun read_lines :: "byte list list \<Rightarrow> byte list \<Rightarrow> byte list list \<Rightarrow> cli_error + byte list list" where
  "read_lines [] out results = Inr results"
| "read_lines (l # ls) out results =
     (if l = [] then read_lines ls out results
      else
        case ReadString out NL of
          (line, None) \<Rightarrow> Inl ErrReadStdout
        | (line, Some rest) \<Rightarrow> read_lines ls rest (results @ [TrimSuffix line [NL]]))"

text \<open>
  The value is what was written to the standard input of the subprocess, the lines read
  from its standard output, and the pair \<open>([]byte, error)\<close> that the handler returns.
\<close>

definition processJobWithPersistentSubprocess ::
    "subprocess \<Rightarrow> byte list \<Rightarrow> byte list \<times> byte list list \<times> byte list \<times> cli_error option" where
  "processJobWithPersistentSubprocess cmd dat =
     (if exited cmd then ([], [], [], Some ErrSubprocessExited)
      else if writes_ok cmd = Some 0 then ([], [], [], Some ErrWriteStdin)
      else if \<not> HasSuffix dat [NL] \<and> writes_ok cmd = Some 1
      then (dat, [], [], Some ErrWriteNewline)
      else
        let written = (if HasSuffix dat [NL] then dat else dat @ [NL]);
            inputLines = Split (TrimSpace dat) NL
        in case read_lines inputLines (stdout_data cmd) [] of
             Inl e \<Rightarrow> (written, [], [], Some e)
           | Inr results \<Rightarrow> (written, results, Join results [NL], None))"

section \<open>The client command\<close>

subsection \<open>The scanner over standard input\<close>

text \<open>
  \<open>bufio.ScanLines\<close> with its helper \<open>dropCR\<close>, the split function of a scanner by
  default. A split function gets the unread bytes in the buffer and whether the input
  has ended; it returns how far to advance and a token, or no token (\<open>None\<close>) to ask
  for more input.
\<close>

definition dropCR :: "byte list \<Rightarrow> byte list" where
  "dropCR dat = (if length dat > 0 \<and> last dat = CR then butlast dat else dat)"

definition ScanLines :: "byte list \<Rightarrow> bool \<Rightarrow> nat \<times> byte list option" where
  "ScanLines dat atEOF =
     (if atEOF \<and> length dat = 0 then (0, None)
      else
        case IndexByte dat NL of
          Some i \<Rightarrow> (i + 1, Some (dropCR (take i dat)))
        | None \<Rightarrow> if atEOF then (length dat, Some (dropCR dat)) else (0, None))"

text \<open>
  The split function that \<open>runClient\<close> installs for a delimiter other than \<open>"\n"\<close>.
  \<open>find_delimiter\<close> is its loop \<open>for j := 0; j <= len(data)-i; j++\<close>: the first \<open>j\<close>
  with \<open>data[j:j+i] == delimiter\<close>.
\<close>

fun find_delimiter :: "byte list \<Rightarrow> byte list \<Rightarrow> nat option" where
  "find_delimiter delimiter [] = None"
| "find_delimiter delimiter (x # xs) =
     (if take (length delimiter) (x # xs) = delimiter then Some 0
      else map_option Suc (find_delimiter delimiter xs))"

definition delimiterSplit :: "byte list \<Rightarrow> byte list \<Rightarrow> bool \<Rightarrow> nat \<times> byte list option" where
  "delimiterSplit delimiter dat atEOF =
     (if atEOF \<and> length dat = 0 then (0, None)
      else
        case (if length delimiter > 0 then find_delimiter delimiter dat else None) of
          Some j \<Rightarrow> (j + length delimiter, Some (take j dat))
        | None \<Rightarrow> if atEOF then (length dat, Some dat) else (0, None))"

definition split_func :: "byte list \<Rightarrow> byte list \<Rightarrow> bool \<Rightarrow> nat \<times> byte list option" where
  "split_func delimiter = (if delimiter \<noteq> [NL] then delimiterSplit delimiter else ScanLines)"

text \<open>
  One call of \<open>bufio.Scanner.Scan\<close> on the unread input. The scanner reads into a buffer
  that grows up to \<open>bufio.MaxScanTokenSize\<close> bytes and calls the split function as the
  buffer fills. Both split functions above return, on a longer prefix of the input, the
  token they return on a shorter one, so the call comes to this: a token that the split
  function finds in the first \<open>MaxScanTokenSize\<close> bytes is returned; otherwise, if the
  buffer is full, scanning stops with \<open>ErrTooLong\<close>; otherwise the input ends inside
  the buffer and the split function is asked a last time, at the end of the input.
\<close>

definition MaxScanTokenSize :: nat where
  "MaxScanTokenSize = 65536"

datatype scanned = Token "byte list" "byte list" | EndOfInput | TooLong

definition Scan :: "byte list \<Rightarrow> byte list \<Rightarrow> scanned" where
  "Scan delimiter input =
     (case split_func delimiter (take MaxScanTokenSize input) False of
        (advance, Some token) \<Rightarrow> Token token (drop advance input)
      | (advance, None) \<Rightarrow>
          if MaxScanTokenSize \<le> length input then TooLong
          else
            case split_func delimiter input True of
              (advance, Some token) \<Rightarrow> Token token (drop advance input)
            | (advance, None) \<Rightarrow> EndOfInput)"

text \<open>
  All the tokens of \<open>for scanner.Scan() { ... scanner.Text() ... }\<close>, and whether
  \<open>scanner.Err()\<close> is \<open>ErrTooLong\<close> afterwards.
\<close>

function scanner_tokens :: "byte list \<Rightarrow> byte list \<Rightarrow> byte list list \<times> bool" where
  "scanner_tokens delimiter input =
     (case Scan delimiter input of
        Token token rest \<Rightarrow>
          (case scanner_tokens delimiter rest of (tokens, e) \<Rightarrow> (token # tokens, e))
      | EndOfInput \<Rightarrow> ([], False)
      | TooLong \<Rightarrow> ([], True))"
  by pat_completeness auto
termination
proof (relation "measure (\<lambda>(delimiter, input). length input)", goal_cases)
  case 1
  show ?case by simp
next
  case (2 delimiter input token rest)
  have idx: "IndexByte xs c = Some i \<Longrightarrow> xs \<noteq> []" for xs c i
    by (cases xs) auto
  have fnd: "find_delimiter d xs = Some j \<Longrightarrow> xs \<noteq> []" for d xs j
    by (cases xs) auto
  have shorter: "0 < n \<Longrightarrow> xs \<noteq> [] \<Longrightarrow> length (drop n xs) < length xs" for n and xs :: "byte list"
    by simp
  have sf: "0 < advance \<and> dat \<noteq> []"
    if "split_func delimiter dat atEOF = (advance, Some tk)" for dat atEOF advance tk
  proof (cases "delimiter \<noteq> [NL]")
    case True
    with that show ?thesis
      by (auto simp: split_func_def delimiterSplit_def split: if_splits option.splits dest: fnd)
  next
    case False
    with that show ?thesis
      by (auto simp: split_func_def ScanLines_def split: if_splits option.splits dest: idx)
  qed
  from 2 consider advance where
      "split_func delimiter (take MaxScanTokenSize input) False = (advance, Some token)"
      "rest = drop advance input"
    | advance where
      "split_func delimiter input True = (advance, Some token)" "rest = drop advance input"
    by (auto simp: Scan_def split: prod.splits option.splits if_splits)
  then have "length rest < length input"
  proof cases
    case 1
    from sf [OF 1(1)] have "0 < advance" and "input \<noteq> []" by auto
    with 1(2) show ?thesis by (simp add: shorter)
  next
    case 2
    from sf [OF 2(1)] 2(2) show ?thesis by (simp add: shorter)
  qed
  then show ?case by simp
qed

declare scanner_tokens.simps [simp del]

subsection \<open>runClient\<close>

text \<open>
  The client library is not among the sources. \<open>c.Do\<close> either returns an error, or
  creates the job; for a created job, \<open>response\<close> is what the response handler is called
  with before the timeout: \<open>WORK_COMPLETE\<close> with the result, \<open>WORK_FAIL\<close>,
  \<open>WORK_EXCEPTION\<close> with its data, or nothing that the handler acts on. The server
  answers the \<open>k\<close>-th created job with the payload \<open>line\<close> by \<open>srv k line\<close>.
\<close>

datatype response = WorkComplete "byte list" | WorkFail | WorkException "byte list" | NoResponse

datatype do_result = DoError | Created response

datatype stderr_line =
    JobFailed                  \<comment> \<open>"Job error: job failed"\<close>
  | JobException "byte list"   \<comment> \<open>"Job error: job exception: %s"\<close>
  | JobTimeout                 \<comment> \<open>"Job timeout after %v"\<close>

datatype client_error =
    ErrConnect                 \<comment> \<open>"failed to connect to server %s: %w"\<close>
  | ErrSubmit                  \<comment> \<open>"error submitting job: %w"\<close>
  | ErrStdin                   \<comment> \<open>"error reading from stdin: %w"\<close>

text \<open>
  What a run of the client has done: the payloads of the jobs created, the bytes printed
  to standard output, the messages printed to standard error, and the error returned.
\<close>

record client_run =
  submitted :: "byte list list"
  stdout :: "byte list"
  stderr :: "stderr_line list"
  ret :: "client_error option"

definition report :: "client_run \<Rightarrow> byte list \<Rightarrow> response \<Rightarrow> client_run" where
  "report run line resp =
     (let run = run\<lparr>submitted := submitted run @ [line]\<rparr> in
      case resp of
        WorkComplete d \<Rightarrow> run\<lparr>stdout := stdout run @ d @ [NL]\<rparr>
      | WorkFail \<Rightarrow> run\<lparr>stderr := stderr run @ [JobFailed]\<rparr>
      | WorkException d \<Rightarrow> run\<lparr>stderr := stderr run @ [JobException d]\<rparr>
      | NoResponse \<Rightarrow> run\<lparr>stderr := stderr run @ [JobTimeout]\<rparr>)"

text \<open>The body of the loop, over the tokens in order; an error of \<open>c.Do\<close> returns at once.\<close>

fun process_tokens :: "(nat \<Rightarrow> byte list \<Rightarrow> do_result) \<Rightarrow> byte list list \<Rightarrow> client_run \<Rightarrow> client_run" where
  "process_tokens srv [] run = run"
| "process_tokens srv (line # rest) run =
     (if line = [] then process_tokens srv rest run
      else
        case srv (length (submitted run)) line of
          DoError \<Rightarrow> run\<lparr>ret := Some ErrSubmit\<rparr>
        | Created resp \<Rightarrow> process_tokens srv rest (report run line resp))"

definition runClient :: "bool \<Rightarrow> byte list \<Rightarrow> byte list \<Rightarrow> (nat \<Rightarrow> byte list \<Rightarrow> do_result) \<Rightarrow> client_run" where
  "runClient connected delimiter input srv =
     (let run = \<lparr>submitted = [], stdout = [], stderr = [], ret = None\<rparr> in
      if \<not> connected then run\<lparr>ret := Some ErrConnect\<rparr>
      else
        case scanner_tokens delimiter input of
          (tokens, too_long) \<Rightarrow>
            let run = process_tokens srv tokens run in
            if ret run = None \<and> too_long then run\<lparr>ret := Some ErrStdin\<rparr> else run)"

subsection \<open>The tokens in the words of the specification\<close>

text \<open>
  "Splits by delimiter": the pieces of the input between the occurrences of a non-empty
  delimiter, found from left to right without overlap. \<open>acc\<close> is the piece being read,
  reversed, and \<open>skip\<close> counts the bytes of a delimiter still to pass over.
\<close>

fun split_on :: "byte list \<Rightarrow> byte list \<Rightarrow> nat \<Rightarrow> byte list \<Rightarrow> byte list list" where
  "split_on d acc skip [] = [rev acc]"
| "split_on d acc (Suc k) (x # xs) = split_on d acc k xs"
| "split_on d acc 0 (x # xs) =
     (if take (length d) (x # xs) = d then rev acc # split_on d [] (length d - 1) xs
      else split_on d (x # acc) 0 xs)"

definition split_by :: "byte list \<Rightarrow> byte list \<Rightarrow> byte list list" where
  "split_by delimiter input = split_on delimiter [] 0 input"

text \<open>
  The tokens that the client works on, in words: with the default delimiter the lines
  of the input, each without one trailing carriage return; with an empty delimiter the
  whole input; with any other delimiter the pieces between its occurrences.
\<close>


definition spec_tokens :: "byte list \<Rightarrow> byte list \<Rightarrow> byte list list" where
  "spec_tokens delimiter input =
     (if delimiter = [NL] then map dropCR (split_by [NL] input)
      else if delimiter = [] then [input]
      else split_by delimiter input)"

text \<open>
  What the client prints for a response: the result and a newline on standard output for
  \<open>WORK_COMPLETE\<close>, a message on standard error for anything else.
\<close>

fun printed :: "response \<Rightarrow> byte list" where
  "printed (WorkComplete d) = d @ [NL]"
| "printed r = []"

fun complained :: "response \<Rightarrow> stderr_line list" where
  "complained (WorkComplete d) = []"
| "complained WorkFail = [JobFailed]"
| "complained (WorkException d) = [JobException d]"
| "complained NoResponse = [JobTimeout]"

section \<open>Concrete inputs\<close>

text \<open>
  A server connection, the job \<open>H:1\<close> for the function \<open>sq\<close> with payload \<open>5\<close>,
  four user functions, and a running worker with one agent and \<open>sq\<close> registered.
\<close>

definition ex_agent :: agent where
  "ex_agent = \<lparr>net = [116, 99, 112], addr = [58, 52, 55, 51, 48]\<rparr>"

definition ex_job :: inPack where
  "ex_job = \<lparr>inPack.dataType = PT_JobAssign, inPack.data = [53], inPack.handle = [72, 58, 49],
              uniqueId = [], fn = [115, 113]\<rparr>"

definition fn_echo :: JobFunc where
  "fn_echo job = Returns 1000 (inPack.data job) None"

definition fn_slow :: JobFunc where
  "fn_slow job = Returns (3 * Second) (inPack.data job) None"

definition fn_panic :: JobFunc where
  "fn_panic job = Panics 1000 (PanicOther ''boom'')"

definition fn_hang :: JobFunc where
  "fn_hang job = Blocks"

definition ex_worker :: "JobFunc \<Rightarrow> 32 word \<Rightarrow> Worker" where
  "ex_worker fu tmo =
     New\<lparr>agents := [ex_agent], funcs := [([115, 113], \<lparr>f = fu, timeout = tmo\<rparr>)],
         running := True, ready := True, once_done := True\<rparr>"

text \<open>
  An instance of \<open>NewPT\<close> with three type codes of the Gearman protocol (6 \<open>NOOP\<close>,
  11 \<open>JOB_ASSIGN\<close>, 31 \<open>JOB_ASSIGN_UNIQ\<close>), and two packets from a server: the job
  above as \<open>JOB_ASSIGN\<close>, and as \<open>JOB_ASSIGN_UNIQ\<close> with the unique id \<open>u\<close>.
\<close>

definition ex_NewPT :: "32 word \<Rightarrow> PT \<times> error option" where
  "ex_NewPT c = (if c = 11 then (PT_JobAssign, None)
                 else if c = 31 then (PT_JobAssignUniq, None)
                 else if c = 6 then (PT_Noop, None)
                 else (PT_Other c, Some (UserError ''Invalid Packet Type'')))"

definition ex_packet :: "byte list" where
  "ex_packet = [0, 82, 69, 83,  0, 0, 0, 11,  0, 0, 0, 8,  72, 58, 49, 0, 115, 113, 0, 53]"

definition ex_packet_uniq :: "byte list" where
  "ex_packet_uniq = [0, 82, 69, 83,  0, 0, 0, 31,  0, 0, 0, 10,  72, 58, 49, 0, 115, 113, 0, 117, 0, 53]"

text \<open>
  A worker that is not yet ready, with one agent and two functions: \<open>sq\<close> without
  timeout and \<open>rev\<close> with a timeout of five seconds.
\<close>

definition ex_worker2 :: Worker where
  "ex_worker2 =
     New\<lparr>agents := [ex_agent],
         funcs := [([115, 113], \<lparr>f = fn_echo, timeout = 0\<rparr>),
                   ([114, 101, 118], \<lparr>f = fn_slow, timeout = 5\<rparr>)]\<rparr>"

text \<open>
  Two outcomes of \<open>agent.Connect\<close> (every connection succeeds; every connection is
  refused) and an iteration order of the table of the worker above.
\<close>

definition connect_ok :: "agent \<Rightarrow> error option" where
  "connect_ok a = None"

definition connect_refused :: "agent \<Rightarrow> error option" where
  "connect_refused a = Some (UserError ''connection refused'')"

definition ex_order :: "gostring list" where
  "ex_order = [[114, 101, 118], [115, 113]]"

text \<open>
  A live subprocess that answers \<open>x\<close> and \<open>y\<close> on two lines, and then \<open>z\<close>.
\<close>

definition ex_cmd :: subprocess where
  "ex_cmd = \<lparr>exited = False, writes_ok = None,
             stdout_data = [120, 10, 121, 10, 122, 10]\<rparr>"

text \<open>
  Two servers: one completes every job with its payload as the result; the other fails
  the second job (\<open>k = 1\<close>) and completes the others the same way.
\<close>

definition resp_echo :: "nat \<Rightarrow> byte list \<Rightarrow> response" where
  "resp_echo k line = WorkComplete line"

definition resp_fail_second :: "nat \<Rightarrow> byte list \<Rightarrow> response" where
  "resp_fail_second k line = (if k = 1 then WorkFail else WorkComplete line)"

section \<open>Theorems\<close>

subsection \<open>C10: AddFunc and RemoveFunc on a wrong name\<close>

text \<open>
  Claim C10. \<open>AddFunc\<close> with a function name that is already registered returns an
  error and leaves the function table unchanged, and \<open>RemoveFunc\<close> with a name that
  is not registered returns an error and leaves the table unchanged; in both cases
  no packet is broadcast to any server. The worker as a whole is unchanged, whether
  it is running or not.
\<close>

theorem AddFunc_RemoveFunc_reject:
  "(map_of (funcs worker) name \<noteq> None \<longrightarrow>
      AddFunc worker name fu tmo = (worker, Some (ErrFuncExists name), [])) \<and>
   (map_of (funcs worker) name = None \<longrightarrow>
      RemoveFunc worker name = (worker, Some (ErrFuncNotExist name), []))"
  by (auto simp: AddFunc_def RemoveFunc_def)

theorem AddFunc_RemoveFunc_reject_witness:
  "AddFunc (ex_worker fn_echo 0) [115, 113] fn_slow 5 =
     (ex_worker fn_echo 0, Some (ErrFuncExists [115, 113]), []) \<and>
   RemoveFunc (ex_worker fn_echo 0) [114, 101, 118] =
     (ex_worker fn_echo 0, Some (ErrFuncNotExist [114, 101, 118]), [])"
  using AddFunc_RemoveFunc_reject [of "ex_worker fn_echo 0" "[115, 113]" fn_slow 5]
    AddFunc_RemoveFunc_reject [of "ex_worker fn_echo 0" "[114, 101, 118]"]
  by (simp add: ex_worker_def New_def)

subsection \<open>C1: the packet sent for a result\<close>

text \<open>
  Claim C1 as stated: for every job executed while the worker is running, a user
  function that returns a nil error makes the worker send \<open>WORK_COMPLETE\<close> with the
  result data. That fails for a function registered with a timeout that returns after
  the timeout has expired: registered with one second, \<open>fn_slow\<close> returns a nil error
  after three seconds, and the worker has sent \<open>WORK_FAIL\<close>.
\<close>

theorem exec_late_return_counterexample:
  "\<not> (\<forall>worker pick inpack jf t d.
        running worker \<and> \<not> shuttingDown worker \<and>
        map_of (funcs worker) (fn inpack) = Some jf \<and> f jf inpack = Returns t d None \<longrightarrow>
        (\<exists>worker'. exec worker pick inpack =
           Some (worker', None,
                 [\<lparr>outPack.dataType = PT_WorkComplete, outPack.data = d,
                   outPack.handle = inPack.handle inpack\<rparr>])))"
proof
  assume a: "\<forall>worker pick inpack jf t d.
        running worker \<and> \<not> shuttingDown worker \<and>
        map_of (funcs worker) (fn inpack) = Some jf \<and> f jf inpack = Returns t d None \<longrightarrow>
        (\<exists>worker'. exec worker pick inpack =
           Some (worker', None,
                 [\<lparr>outPack.dataType = PT_WorkComplete, outPack.data = d,
                   outPack.handle = inPack.handle inpack\<rparr>]))"
  have "exec (ex_worker fn_slow 1) True ex_job =
          Some (ex_worker fn_slow 1, Some ErrTimeOut,
                [\<lparr>outPack.dataType = PT_WorkFail, outPack.data = [],
                  outPack.handle = [72, 58, 49]\<rparr>])"
    by (simp add: exec_def exec_send_def execTimeout_def exec_done_def ex_worker_def New_def
        ex_job_def fn_slow_def Second_def)
  moreover from a [rule_format, of "ex_worker fn_slow 1" ex_job
      "\<lparr>f = fn_slow, timeout = 1\<rparr>" "3 * Second" "[53]" True]
  have "\<exists>worker'. exec (ex_worker fn_slow 1) True ex_job =
           Some (worker', None,
                 [\<lparr>outPack.dataType = PT_WorkComplete, outPack.data = [53],
                   outPack.handle = inPack.handle ex_job\<rparr>])"
    by (simp add: ex_worker_def New_def ex_job_def fn_slow_def)
  ultimately show False by simp
qed

text \<open>
  Claim C1, amended. For every job executed while the worker is running (the worker is
  not shutting down and the job's function is registered): when the user function
  returns \<open>(d, e)\<close>, and returns before its timeout expires if it was registered with one,
  the worker writes exactly one packet to the job's agent, with the job's handle and the
  data \<open>d\<close>: \<open>WORK_COMPLETE\<close> if \<open>e\<close> is nil, \<open>WORK_FAIL\<close> if \<open>e\<close> is not nil and
  \<open>d\<close> is empty, \<open>WORK_EXCEPTION\<close> if \<open>e\<close> is not nil and \<open>d\<close> is not empty.
  \<open>exec\<close> returns \<open>e\<close> and leaves the worker as it was.
\<close>

theorem exec_sends_by_result:
  assumes "running worker" and "\<not> shuttingDown worker"
    and "map_of (funcs worker) (fn inpack) = Some jf"
    and "f jf inpack = Returns t d e"
    and "timeout jf = 0 \<or> t < unat (timeout jf) * Second"
  shows "exec worker pick inpack =
           Some (worker, e,
                 [\<lparr>outPack.dataType = (if e = None then PT_WorkComplete
                                        else if d = [] then PT_WorkFail else PT_WorkException),
                   outPack.data = d, outPack.handle = inPack.handle inpack\<rparr>])"
  using assms
  by (auto simp: exec_def exec_send_def execTimeout_def exec_done_def Let_def)

theorem exec_sends_by_result_witness:
  "exec (ex_worker fn_echo 0) True ex_job =
     Some (ex_worker fn_echo 0, None,
           [\<lparr>outPack.dataType = PT_WorkComplete, outPack.data = [53],
             outPack.handle = [72, 58, 49]\<rparr>])"
  using exec_sends_by_result [of "ex_worker fn_echo 0" ex_job
      "\<lparr>f = fn_echo, timeout = 0\<rparr>" 1000 "[53]" None True]
  by (simp add: ex_worker_def New_def ex_job_def fn_echo_def)

subsection \<open>C2: timeouts\<close>

text \<open>
  Claim C2 as stated: for every function registered with a timeout, a user function
  that produces no result in time makes the worker emit \<open>WORK_FAIL\<close>. That fails
  when the worker is no longer running (\<open>Close\<close> was called while the job was
  executing or waiting in the queue): \<open>exec\<close> sends only under \<open>if worker.running\<close>, and
  here nothing is sent and no error is returned.
\<close>

theorem exec_timeout_not_running_counterexample:
  "\<not> (\<forall>worker pick inpack jf.
        \<not> shuttingDown worker \<and> map_of (funcs worker) (fn inpack) = Some jf \<and>
        timeout jf \<noteq> 0 \<and> f jf inpack = Blocks \<longrightarrow>
        (\<exists>worker' e. exec worker pick inpack =
           Some (worker', e,
                 [\<lparr>outPack.dataType = PT_WorkFail, outPack.data = [],
                   outPack.handle = inPack.handle inpack\<rparr>])))"
proof
  assume a: "\<forall>worker pick inpack jf.
        \<not> shuttingDown worker \<and> map_of (funcs worker) (fn inpack) = Some jf \<and>
        timeout jf \<noteq> 0 \<and> f jf inpack = Blocks \<longrightarrow>
        (\<exists>worker' e. exec worker pick inpack =
           Some (worker', e,
                 [\<lparr>outPack.dataType = PT_WorkFail, outPack.data = [],
                   outPack.handle = inPack.handle inpack\<rparr>]))"
  let ?w = "(ex_worker fn_hang 1)\<lparr>running := False\<rparr>"
  have "exec ?w True ex_job = Some (?w, None, [])"
    by (simp add: exec_def exec_send_def execTimeout_def exec_done_def ex_worker_def New_def
        ex_job_def fn_hang_def Second_def)
  moreover from a [rule_format, of ?w ex_job "\<lparr>f = fn_hang, timeout = 1\<rparr>" True]
  have "\<exists>worker' e. exec ?w True ex_job =
           Some (worker', e,
                 [\<lparr>outPack.dataType = PT_WorkFail, outPack.data = [],
                   outPack.handle = inPack.handle ex_job\<rparr>])"
    by (simp add: ex_worker_def New_def ex_job_def fn_hang_def)
  ultimately show False by simp
qed

text \<open>
  Claim C2, amended. For every function registered with a timeout of \<open>T > 0\<close> seconds:
  if the user function has produced no result when \<open>T\<close> seconds have passed (it never
  comes back, it panics, or it returns later), the execution result is \<open>ErrTimeOut\<close>
  with empty data, and while the worker is running it writes \<open>WORK_FAIL\<close> with the job's
  handle and \<open>exec\<close> returns \<open>ErrTimeOut\<close>; if the function returns before \<open>T\<close> seconds
  have passed, its own result is the execution result and decides what is sent.
\<close>

theorem exec_timeout:
  assumes "\<not> shuttingDown worker"
    and "map_of (funcs worker) (fn inpack) = Some jf"
    and "timeout jf \<noteq> 0"
  shows "((f jf inpack = Blocks \<or> (\<exists>t v. f jf inpack = Panics t v) \<or>
           (\<exists>t d e. f jf inpack = Returns t d e \<and> unat (timeout jf) * Second < t)) \<longrightarrow>
          execTimeout (f jf) inpack (unat (timeout jf) * Second) pick =
            \<lparr>result.data = [], result.err = Some ErrTimeOut\<rparr> \<and>
          (running worker \<longrightarrow>
             exec worker pick inpack =
               Some (worker, Some ErrTimeOut,
                     [\<lparr>outPack.dataType = PT_WorkFail, outPack.data = [],
                       outPack.handle = inPack.handle inpack\<rparr>]))) \<and>
         (\<forall>t d e. f jf inpack = Returns t d e \<and> t < unat (timeout jf) * Second \<longrightarrow>
          execTimeout (f jf) inpack (unat (timeout jf) * Second) pick =
            \<lparr>result.data = d, result.err = e\<rparr> \<and>
          exec worker pick inpack =
            Some (worker, exec_send worker inpack \<lparr>result.data = d, result.err = e\<rparr>))"
  using assms
  by (auto simp: exec_def exec_send_def execTimeout_def exec_done_def Let_def)

theorem exec_timeout_witness:
  "execTimeout fn_hang ex_job (1 * Second) False = \<lparr>result.data = [], result.err = Some ErrTimeOut\<rparr> \<and>
   exec (ex_worker fn_hang 1) False ex_job =
     Some (ex_worker fn_hang 1, Some ErrTimeOut,
           [\<lparr>outPack.dataType = PT_WorkFail, outPack.data = [], outPack.handle = [72, 58, 49]\<rparr>]) \<and>
   execTimeout fn_echo ex_job (1 * Second) False = \<lparr>result.data = [53], result.err = None\<rparr> \<and>
   exec (ex_worker fn_echo 1) False ex_job =
     Some (ex_worker fn_echo 1, None,
           [\<lparr>outPack.dataType = PT_WorkComplete, outPack.data = [53], outPack.handle = [72, 58, 49]\<rparr>])"
  using exec_timeout [of "ex_worker fn_hang 1" ex_job "\<lparr>f = fn_hang, timeout = 1\<rparr>" False]
    exec_timeout [of "ex_worker fn_echo 1" ex_job "\<lparr>f = fn_echo, timeout = 1\<rparr>" False]
  by (simp add: ex_worker_def New_def ex_job_def fn_hang_def fn_echo_def Second_def exec_send_def)

subsection \<open>C3: panics in the user function\<close>

text \<open>
  Claim C3 as stated: for every job whose user function panics, the worker reports the
  panic in a \<open>WORK_EXCEPTION\<close> packet. That fails: \<open>fn_panic\<close>, registered without
  timeout on a running worker, panics with a value that is not an error; \<open>exec\<close>
  recovers, returns \<open>ErrUnknown\<close> and writes no packet at all.
\<close>

theorem exec_panic_no_exception_counterexample:
  "\<not> (\<forall>worker pick inpack jf t v.
        running worker \<and> \<not> shuttingDown worker \<and>
        map_of (funcs worker) (fn inpack) = Some jf \<and> f jf inpack = Panics t v \<longrightarrow>
        (\<exists>worker' e d. exec worker pick inpack =
           Some (worker', e,
                 [\<lparr>outPack.dataType = PT_WorkException, outPack.data = d,
                   outPack.handle = inPack.handle inpack\<rparr>])))"
proof
  assume a: "\<forall>worker pick inpack jf t v.
        running worker \<and> \<not> shuttingDown worker \<and>
        map_of (funcs worker) (fn inpack) = Some jf \<and> f jf inpack = Panics t v \<longrightarrow>
        (\<exists>worker' e d. exec worker pick inpack =
           Some (worker', e,
                 [\<lparr>outPack.dataType = PT_WorkException, outPack.data = d,
                   outPack.handle = inPack.handle inpack\<rparr>]))"
  have "exec (ex_worker fn_panic 0) True ex_job = Some (ex_worker fn_panic 0, Some ErrUnknown, [])"
    by (simp add: exec_def exec_done_def ex_worker_def New_def ex_job_def fn_panic_def)
  moreover from a [rule_format, of "ex_worker fn_panic 0" ex_job
      "\<lparr>f = fn_panic, timeout = 0\<rparr>" 1000 "PanicOther ''boom''" True]
  have "\<exists>worker' e d. exec (ex_worker fn_panic 0) True ex_job =
           Some (worker', e,
                 [\<lparr>outPack.dataType = PT_WorkException, outPack.data = d,
                   outPack.handle = inPack.handle ex_job\<rparr>])"
    by (simp add: ex_worker_def New_def ex_job_def fn_panic_def)
  ultimately show False by simp
qed

text \<open>
  Claim C3, amended. For every job whose user function panics, the worker runtime
  recovers the panic and \<open>exec\<close> returns; no \<open>WORK_EXCEPTION\<close> packet is sent. For a
  function registered without timeout no packet is sent and \<open>exec\<close> returns the panic
  value as its error when that value is an error, and the unknown-error sentinel
  \<open>ErrUnknown\<close> when it is not (the caller hands that error to the worker's
  \<open>ErrorHandler\<close>). For a function registered with a timeout the goroutine of
  \<open>execTimeout\<close> swallows the panic, the timer fires, and the job ends as a timeout:
  \<open>WORK_FAIL\<close> and \<open>ErrTimeOut\<close> while the worker is running, nothing otherwise.
\<close>

theorem exec_panic:
  assumes "\<not> shuttingDown worker"
    and "map_of (funcs worker) (fn inpack) = Some jf"
    and "f jf inpack = Panics t v"
  shows "(timeout jf = 0 \<longrightarrow>
            exec worker pick inpack =
              Some (worker, Some (case v of PanicError e \<Rightarrow> e | PanicOther x \<Rightarrow> ErrUnknown), [])) \<and>
         (timeout jf \<noteq> 0 \<longrightarrow>
            exec worker pick inpack =
              Some (worker,
                    if running worker
                    then (Some ErrTimeOut,
                          [\<lparr>outPack.dataType = PT_WorkFail, outPack.data = [],
                            outPack.handle = inPack.handle inpack\<rparr>])
                    else (None, [])))"
  using assms
  by (auto simp: exec_def exec_send_def execTimeout_def exec_done_def Let_def
      split: panic_value.splits)

theorem exec_panic_witness:
  "exec (ex_worker fn_panic 0) True ex_job = Some (ex_worker fn_panic 0, Some ErrUnknown, []) \<and>
   exec (ex_worker fn_panic 1) True ex_job =
     Some (ex_worker fn_panic 1, Some ErrTimeOut,
           [\<lparr>outPack.dataType = PT_WorkFail, outPack.data = [], outPack.handle = [72, 58, 49]\<rparr>])"
  using exec_panic [of "ex_worker fn_panic 0" ex_job "\<lparr>f = fn_panic, timeout = 0\<rparr>" 1000 "PanicOther ''boom''" True]
    exec_panic [of "ex_worker fn_panic 1" ex_job "\<lparr>f = fn_panic, timeout = 1\<rparr>" 1000 "PanicOther ''boom''" True]
  by (simp add: ex_worker_def New_def ex_job_def fn_panic_def)
subsection \<open>C4: the fields of an assignment packet\<close>

lemma IndexByte_first: "c \<notin> set h \<Longrightarrow> IndexByte (h @ c # rest) c = Some (length h)"
  by (induction h) auto

lemma SplitN_3: "sep \<notin> set a \<Longrightarrow> sep \<notin> set b \<Longrightarrow> SplitN (a @ sep # b @ sep # c) sep 3 = [a, b, c]"
  by (simp add: numeral_3_eq_3 IndexByte_first)

lemma SplitN_4: "sep \<notin> set a \<Longrightarrow> sep \<notin> set b \<Longrightarrow> sep \<notin> set c \<Longrightarrow>
   SplitN (a @ sep # b @ sep # c @ sep # d) sep 4 = [a, b, c, d]"
  by (simp add: numeral_Bit0 IndexByte_first)


lemma decodeInPack_JobAssign:
  assumes "MinPacketLength \<le> length dat"
    and "dl = unat (Uint32 (slice dat 8 12))"
    and "dl + MinPacketLength \<le> length dat"
    and "NewPT (Uint32 (slice dat 4 8)) = (PT_JobAssign, None)"
    and "0 \<notin> set h" and "0 \<notin> set fnm"
    and "slice dat MinPacketLength (dl + MinPacketLength) = h @ 0 # fnm @ 0 # d"
  shows "decodeInPack NewPT dat =
              (Some \<lparr>inPack.dataType = PT_JobAssign, inPack.data = d, inPack.handle = h,
                     uniqueId = [], fn = fnm\<rparr>, dl + MinPacketLength, None)"
proof -
  have len: "length (slice dat MinPacketLength (dl + MinPacketLength)) = dl"
    using assms(3) by (simp add: slice_def)
  have sp: "SplitN (slice dat MinPacketLength (dl + MinPacketLength)) 0 3 = [h, fnm, d]"
    using assms(5,6,7) by (simp add: SplitN_3 del: SplitN.simps)
  show ?thesis
    unfolding decodeInPack_def Let_def
    using assms(1,3,4) len sp assms(2)[symmetric]
    by (simp del: SplitN.simps)
qed

lemma decodeInPack_JobAssignUniq:
  assumes "MinPacketLength \<le> length dat"
    and "dl = unat (Uint32 (slice dat 8 12))"
    and "dl + MinPacketLength \<le> length dat"
    and "NewPT (Uint32 (slice dat 4 8)) = (PT_JobAssignUniq, None)"
    and "0 \<notin> set h" and "0 \<notin> set fnm" and "0 \<notin> set u"
    and "slice dat MinPacketLength (dl + MinPacketLength) = h @ 0 # fnm @ 0 # u @ 0 # d"
  shows "decodeInPack NewPT dat =
              (Some \<lparr>inPack.dataType = PT_JobAssignUniq, inPack.data = d, inPack.handle = h,
                     uniqueId = u, fn = fnm\<rparr>, dl + MinPacketLength, None)"
proof -
  have len: "length (slice dat MinPacketLength (dl + MinPacketLength)) = dl"
    using assms(3) by (simp add: slice_def)
  have sp: "SplitN (slice dat MinPacketLength (dl + MinPacketLength)) 0 4 = [h, fnm, u, d]"
    using assms(5,6,7,8) by (simp add: SplitN_4 del: SplitN.simps)
  show ?thesis
    unfolding decodeInPack_def Let_def
    using assms(1,3,4) len sp assms(2)[symmetric]
    by (simp del: SplitN.simps)
qed

text \<open>
  Claim C4. Decoding an assignment packet splits its payload on NUL bytes into the
  documented fields. For \<open>JOB_ASSIGN\<close> the handle is the bytes before the first NUL,
  the function name the bytes between the first and the second NUL, and the data
  everything after the second NUL (further NULs included). For \<open>JOB_ASSIGN_UNIQ\<close>
  there is a unique id between the function name and the data: four parts, split at the
  first three NULs. The payload is the \<open>dl\<close> bytes after the 12-byte header, where
  \<open>dl\<close> is the length in the header, and \<open>dl + 12\<close> bytes are reported consumed.
\<close>

theorem decodeInPack_assign_fields:
  assumes "MinPacketLength \<le> length dat"
    and "dl = unat (Uint32 (slice dat 8 12))"
    and "dl + MinPacketLength \<le> length dat"
    and "NewPT (Uint32 (slice dat 4 8)) = (pt, None)"
    and "0 \<notin> set h" and "0 \<notin> set fnm"
  shows "(pt = PT_JobAssign \<and>
          slice dat MinPacketLength (dl + MinPacketLength) = h @ 0 # fnm @ 0 # d \<longrightarrow>
            decodeInPack NewPT dat =
              (Some \<lparr>inPack.dataType = PT_JobAssign, inPack.data = d, inPack.handle = h,
                     uniqueId = [], fn = fnm\<rparr>, dl + MinPacketLength, None)) \<and>
         (pt = PT_JobAssignUniq \<and> 0 \<notin> set u \<and>
          slice dat MinPacketLength (dl + MinPacketLength) = h @ 0 # fnm @ 0 # u @ 0 # d \<longrightarrow>
            decodeInPack NewPT dat =
              (Some \<lparr>inPack.dataType = PT_JobAssignUniq, inPack.data = d, inPack.handle = h,
                     uniqueId = u, fn = fnm\<rparr>, dl + MinPacketLength, None))"
  using decodeInPack_JobAssign [OF assms(1,2,3) _ assms(5,6)]
    decodeInPack_JobAssignUniq [OF assms(1,2,3) _ assms(5,6)] assms(4)
  by blast

lemma ex_packet_decoded:
  "decodeInPack ex_NewPT ex_packet =
     (Some \<lparr>inPack.dataType = PT_JobAssign, inPack.data = [53], inPack.handle = [72, 58, 49],
            uniqueId = [], fn = [115, 113]\<rparr>, 20, None)"
  by (simp add: ex_packet_def ex_NewPT_def MinPacketLength_def slice_def Uint32_def decodeInPack_def numeral_3_eq_3)

theorem decodeInPack_assign_fields_witness:
  "decodeInPack ex_NewPT ex_packet =
     (Some \<lparr>inPack.dataType = PT_JobAssign, inPack.data = [53], inPack.handle = [72, 58, 49],
            uniqueId = [], fn = [115, 113]\<rparr>, 20, None) \<and>
   decodeInPack ex_NewPT ex_packet_uniq =
     (Some \<lparr>inPack.dataType = PT_JobAssignUniq, inPack.data = [53], inPack.handle = [72, 58, 49],
            uniqueId = [117], fn = [115, 113]\<rparr>, 22, None)"
proof -
  have a: "MinPacketLength \<le> length ex_packet" "8 = unat (Uint32 (slice ex_packet 8 12))"
    "8 + MinPacketLength \<le> length ex_packet"
    "ex_NewPT (Uint32 (slice ex_packet 4 8)) = (PT_JobAssign, None)"
    "slice ex_packet MinPacketLength (8 + MinPacketLength) = [72, 58, 49] @ 0 # [115, 113] @ 0 # [53]"
    by (simp_all add: ex_packet_def ex_NewPT_def MinPacketLength_def slice_def Uint32_def)
  have b: "MinPacketLength \<le> length ex_packet_uniq" "10 = unat (Uint32 (slice ex_packet_uniq 8 12))"
    "10 + MinPacketLength \<le> length ex_packet_uniq"
    "ex_NewPT (Uint32 (slice ex_packet_uniq 4 8)) = (PT_JobAssignUniq, None)"
    "slice ex_packet_uniq MinPacketLength (10 + MinPacketLength) =
       [72, 58, 49] @ 0 # [115, 113] @ 0 # [117] @ 0 # [53]"
    by (simp_all add: ex_packet_uniq_def ex_NewPT_def MinPacketLength_def slice_def Uint32_def)
  have c: "(0::byte) \<notin> set [72, 58, 49]" "(0::byte) \<notin> set [115, 113]" "(0::byte) \<notin> set [117]"
    by simp_all
  show ?thesis
    using decodeInPack_assign_fields [where dat = ex_packet and dl = 8 and NewPT = ex_NewPT
        and pt = PT_JobAssign and h = "[72, 58, 49]" and fnm = "[115, 113]" and d = "[53]"]
      decodeInPack_assign_fields [where dat = ex_packet_uniq and dl = 10 and NewPT = ex_NewPT
        and pt = PT_JobAssignUniq and h = "[72, 58, 49]" and fnm = "[115, 113]" and u = "[117]"
        and d = "[53]"] a b c
    by (simp add: MinPacketLength_def)
qed


subsection \<open>C5: partial input\<close>

lemma decodeInPack_short:
  "length dat < MinPacketLength \<Longrightarrow> decodeInPack NewPT dat = (None, 0, Some (ErrInvalidData dat))"
  by (simp add: decodeInPack_def)

lemma decodeInPack_not_enough:
  "MinPacketLength \<le> length dat \<Longrightarrow>
   length dat < unat (Uint32 (slice dat 8 12)) + MinPacketLength \<Longrightarrow>
   decodeInPack NewPT dat = (None, 0, Some (ErrNotEnoughData dat))"
  by (simp add: decodeInPack_def Let_def)

lemma decodeInPack_Some_length:
  assumes "decodeInPack NewPT dat = (Some p, l, e)"
  shows "MinPacketLength \<le> length dat \<and> unat (Uint32 (slice dat 8 12)) + MinPacketLength \<le> length dat"
proof (rule ccontr)
  assume "\<not> ?thesis"
  then consider "length dat < MinPacketLength"
    | "MinPacketLength \<le> length dat" "length dat < unat (Uint32 (slice dat 8 12)) + MinPacketLength"
    by linarith
  then show False
  proof cases
    case 1
    from decodeInPack_short [OF 1, of NewPT] assms show False by simp
  next
    case 2
    from decodeInPack_not_enough [OF 2, of NewPT] assms show False by simp
  qed
qed

text \<open>
  Claim C5. For every input shorter than 12 bytes, or shorter than 12 bytes plus the
  payload length declared in the header, the decoder returns no packet and reports
  0 bytes consumed (with an error); a packet is only produced when at least
  12 + declared length bytes are there.
\<close>

theorem decodeInPack_partial:
  "((length dat < MinPacketLength \<or>
     length dat < MinPacketLength + unat (Uint32 (slice dat 8 12))) \<longrightarrow>
      (\<exists>e. decodeInPack NewPT dat = (None, 0, Some e))) \<and>
   (\<forall>p l e. decodeInPack NewPT dat = (Some p, l, e) \<longrightarrow>
      MinPacketLength + unat (Uint32 (slice dat 8 12)) \<le> length dat)"
proof (intro conjI impI allI)
  assume a: "length dat < MinPacketLength \<or>
     length dat < MinPacketLength + unat (Uint32 (slice dat 8 12))"
  show "\<exists>e. decodeInPack NewPT dat = (None, 0, Some e)"
  proof (cases "length dat < MinPacketLength")
    case True
    then show ?thesis using decodeInPack_short by blast
  next
    case False
    with a have "length dat < unat (Uint32 (slice dat 8 12)) + MinPacketLength" by simp
    with False show ?thesis using decodeInPack_not_enough [of dat NewPT] by simp
  qed
next
  fix p l e
  assume "decodeInPack NewPT dat = (Some p, l, e)"
  from decodeInPack_Some_length [OF this]
  show "MinPacketLength + unat (Uint32 (slice dat 8 12)) \<le> length dat" by simp
qed

theorem decodeInPack_partial_witness:
  "decodeInPack ex_NewPT (take 5 ex_packet) = (None, 0, Some (ErrInvalidData (take 5 ex_packet))) \<and>
   decodeInPack ex_NewPT (take 15 ex_packet) = (None, 0, Some (ErrNotEnoughData (take 15 ex_packet))) \<and>
   MinPacketLength + unat (Uint32 (slice ex_packet 8 12)) \<le> length ex_packet"
proof -
  have 1: "length (take 5 ex_packet) < MinPacketLength"
    by (simp add: ex_packet_def MinPacketLength_def)
  have 2: "length (take 15 ex_packet) < MinPacketLength + unat (Uint32 (slice (take 15 ex_packet) 8 12))"
    by (simp add: ex_packet_def MinPacketLength_def slice_def Uint32_def)
  have d1: "decodeInPack ex_NewPT (take 5 ex_packet) = (None, 0, Some (ErrInvalidData (take 5 ex_packet)))"
    using 1 by (simp add: decodeInPack_def)
  have d2: "decodeInPack ex_NewPT (take 15 ex_packet) = (None, 0, Some (ErrNotEnoughData (take 15 ex_packet)))"
    using 2 by (simp add: decodeInPack_def Let_def MinPacketLength_def ex_packet_def)
  from decodeInPack_partial [of ex_packet ex_NewPT] ex_packet_decoded
  have "MinPacketLength + unat (Uint32 (slice ex_packet 8 12)) \<le> length ex_packet"
    by blast
  moreover note decodeInPack_partial [of "take 5 ex_packet" ex_NewPT]
    decodeInPack_partial [of "take 15 ex_packet" ex_NewPT]
  ultimately show ?thesis using d1 d2 by simp
qed

subsection \<open>C6: the registration packets\<close>


lemma Uint32_PutUint32: "Uint32 (PutUint32 v) = v"
  unfolding Uint32_def PutUint32_def
  apply (rule bit_word_eqI)
  apply (simp add: bit_simps)
  apply (auto simp: not_less)
  using linordered_semidom_class.add_diff_inverse apply fastforce
  done

lemma range_funcs_map:
  assumes "set order \<subseteq> set (map fst fs)"
  shows "range_funcs fs order = map (\<lambda>k. (k, the (map_of fs k))) order"
  using assms
proof (induction order)
  case Nil
  then show ?case by (simp add: range_funcs_def map_filter_simps)
next
  case (Cons k ks)
  then obtain jf where "map_of fs k = Some jf"
    by (cases "map_of fs k") (auto simp: map_of_eq_None_iff)
  with Cons show ?case by (simp add: range_funcs_def map_filter_simps)
qed

lemma range_funcs_set:
  assumes "distinct (map fst fs)" and "set order = set (map fst fs)"
  shows "set (range_funcs fs order) = set fs"
proof -
  have "set (range_funcs fs order) = (\<lambda>k. (k, the (map_of fs k))) ` set (map fst fs)"
    using assms(2) by (simp add: range_funcs_map)
  also have "\<dots> = set fs"
  proof (intro equalityI subsetI)
    fix x assume "x \<in> (\<lambda>k. (k, the (map_of fs k))) ` set (map fst fs)"
    then obtain k v where kv: "(k, v) \<in> set fs" and x: "x = (k, the (map_of fs k))" by auto
    from assms(1) kv have "map_of fs k = Some v" by simp
    with kv x show "x \<in> set fs" by simp
  next
    fix x assume "x \<in> set fs"
    moreover obtain k v where x: "x = (k, v)" by (cases x)
    ultimately have kv: "(k, v) \<in> set fs" by simp
    from assms(1) kv have "map_of fs k = Some v" by simp
    with kv x show "x \<in> (\<lambda>k. (k, the (map_of fs k))) ` set (map fst fs)" by force
  qed
  finally show ?thesis .
qed

lemma range_funcs_length:
  assumes "distinct (map fst fs)" and "distinct order" and "set order = set (map fst fs)"
  shows "length (range_funcs fs order) = length fs"
proof -
  have "length (range_funcs fs order) = length order"
    using assms(3) by (simp add: range_funcs_map)
  also have "\<dots> = card (set order)" using assms(2) by (simp add: distinct_card)
  also have "\<dots> = length (map fst fs)" using distinct_card [OF assms(1)] assms(3) by simp
  finally show ?thesis by simp
qed

lemma prepFuncOutpack_data: "tmo \<noteq> 0 \<Longrightarrow> outPack.data (prepFuncOutpack name tmo) = name @ 0 # PutUint32 tmo"
proof -
  assume "tmo \<noteq> 0"
  have 1: "copy (NewBuffer (length name + 5)) name = name @ replicate 5 0"
    by (simp add: NewBuffer_def copy_def)
  have 2: "(name @ replicate 5 0)[length name := 0] = name @ replicate 5 (0::byte)"
    by (simp add: list_update_append numeral_eq_Suc)
  have 3: "PutUint32_at (name @ replicate 5 0) (length name + 1) tmo = name @ 0 # PutUint32 tmo"
    by (simp add: PutUint32_at_def copy_def PutUint32_def numeral_eq_Suc)
  show ?thesis
    unfolding prepFuncOutpack_def Let_def 1 2 3 using \<open>tmo \<noteq> 0\<close> by simp
qed

lemma prepFuncOutpack_timeout:
  assumes "tmo \<noteq> 0"
  shows "prepFuncOutpack name tmo =
           \<lparr>outPack.dataType = PT_CanDoTimeout, outPack.data = name @ 0 # PutUint32 tmo,
             outPack.handle = []\<rparr>"
proof -
  have "outPack.dataType (prepFuncOutpack name tmo) = PT_CanDoTimeout"
    and "outPack.handle (prepFuncOutpack name tmo) = []"
    using assms by (simp_all add: prepFuncOutpack_def Let_def)
  with prepFuncOutpack_data [OF assms, of name] show ?thesis
    by (cases "prepFuncOutpack name tmo") simp
qed

lemma prepFuncOutpack_zero:
  "prepFuncOutpack name 0 =
     \<lparr>outPack.dataType = PT_CanDo, outPack.data = name, outPack.handle = []\<rparr>"
  by (simp add: prepFuncOutpack_def)

lemma PutUint32_big_endian: "unat v = unat (PutUint32 v ! 0) * 16777216 + unat (PutUint32 v ! 1) * 65536 + unat (PutUint32 v ! 2) * 256 + unat (PutUint32 v ! 3)"
proof -
  have lt: "unat v < 4294967296" using unsigned_less [of v] by simp
  have b: "unat (ucast v :: byte) = unat v mod 256"
     "unat (ucast (drop_bit 8 v) :: byte) = unat v div 256 mod 256"
     "unat (ucast (drop_bit 16 v) :: byte) = unat v div 65536 mod 256"
     "unat (ucast (drop_bit 24 v) :: byte) = unat v div 16777216 mod 256"
    by (simp_all add: unsigned_ucast_eq unat_drop_bit_eq take_bit_eq_mod drop_bit_eq_div unat_div_distrib)
  have ar: "n = n div 16777216 * 16777216 + n div 65536 mod 256 * 65536 +
              n div 256 mod 256 * 256 + n mod 256" for n :: nat
  proof -
    have d2: "n div 65536 = n div 256 div 256" and d3: "n div 16777216 = n div 256 div 256 div 256"
      by (simp_all add: div_mult2_eq [symmetric])
    have e1: "n = n div 256 * 256 + n mod 256" by simp
    have e2: "n div 256 = n div 256 div 256 * 256 + n div 256 mod 256" by simp
    have e3: "n div 256 div 256 = n div 256 div 256 div 256 * 256 + n div 256 div 256 mod 256" by simp
    define a where "a = n div 256 div 256 div 256"
    define b where "b = n div 256 div 256 mod 256"
    define c where "c = n div 256 mod 256"
    define d where "d = n mod 256"
    from e3 have f3: "n div 256 div 256 = a * 256 + b" by (simp add: a_def b_def)
    from e2 f3 have f2: "n div 256 = (a * 256 + b) * 256 + c" by (simp add: c_def)
    from e1 f2 have f1: "n = ((a * 256 + b) * 256 + c) * 256 + d" by (simp add: d_def)
    have "n = a * 16777216 + b * 65536 + c * 256 + d"
      by (subst f1) (simp add: algebra_simps)
    then show ?thesis unfolding a_def b_def c_def d_def d2 d3 .
  qed
  show ?thesis using lt ar [of "unat v"] by (simp add: PutUint32_def b)
qed

text \<open>
  Claim C6. The registration sequence that \<open>reRegisterFuncsForAgent\<close> writes to an
  agent (on reconnect) holds exactly one packet for every function of the table and
  nothing else, whatever the iteration order. A function with timeout 0 is encoded as
  \<open>CAN_DO\<close> with the function name as payload; a function with a timeout \<open>t > 0\<close>
  as \<open>CAN_DO_TIMEOUT\<close> whose payload is the name, a NUL byte, and \<open>t\<close> as four
  bytes in big-endian order (most significant byte first; \<open>Uint32\<close> reads \<open>t\<close> back).
\<close>

theorem reRegister_encodes_table:
  assumes "distinct (map fst (funcs worker))"
    and "distinct order" and "set order = set (map fst (funcs worker))"
  shows "set (reRegisterFuncsForAgent worker order a) =
           (\<lambda>(funcname, jf). (a, prepFuncOutpack funcname (timeout jf))) ` set (funcs worker) \<and>
         length (reRegisterFuncsForAgent worker order a) = length (funcs worker) \<and>
         prepFuncOutpack name 0 =
           \<lparr>outPack.dataType = PT_CanDo, outPack.data = name, outPack.handle = []\<rparr> \<and>
         (tmo \<noteq> 0 \<longrightarrow>
            prepFuncOutpack name tmo =
              \<lparr>outPack.dataType = PT_CanDoTimeout, outPack.data = name @ 0 # PutUint32 tmo,
                outPack.handle = []\<rparr> \<and>
            length (PutUint32 tmo) = 4 \<and> Uint32 (PutUint32 tmo) = tmo \<and>
            unat tmo = unat (PutUint32 tmo ! 0) * 16777216 + unat (PutUint32 tmo ! 1) * 65536 +
                       unat (PutUint32 tmo ! 2) * 256 + unat (PutUint32 tmo ! 3))"
proof (intro conjI impI)
  show "set (reRegisterFuncsForAgent worker order a) =
          (\<lambda>(funcname, jf). (a, prepFuncOutpack funcname (timeout jf))) ` set (funcs worker)"
    using range_funcs_set [OF assms(1,3)] by (simp add: reRegisterFuncsForAgent_def)
  show "length (reRegisterFuncsForAgent worker order a) = length (funcs worker)"
    using range_funcs_length [OF assms] by (simp add: reRegisterFuncsForAgent_def)
  show "prepFuncOutpack name 0 =
          \<lparr>outPack.dataType = PT_CanDo, outPack.data = name, outPack.handle = []\<rparr>"
    by (rule prepFuncOutpack_zero)
next
  assume t: "tmo \<noteq> 0"
  show "prepFuncOutpack name tmo =
          \<lparr>outPack.dataType = PT_CanDoTimeout, outPack.data = name @ 0 # PutUint32 tmo,
            outPack.handle = []\<rparr>"
    by (rule prepFuncOutpack_timeout [OF t])
  show "length (PutUint32 tmo) = 4" by (simp add: PutUint32_def)
  show "Uint32 (PutUint32 tmo) = tmo" by (rule Uint32_PutUint32)
  show "unat tmo = unat (PutUint32 tmo ! 0) * 16777216 + unat (PutUint32 tmo ! 1) * 65536 +
                   unat (PutUint32 tmo ! 2) * 256 + unat (PutUint32 tmo ! 3)"
    by (rule PutUint32_big_endian)
qed

theorem reRegister_encodes_table_witness:
  "reRegisterFuncsForAgent ex_worker2 [[114, 101, 118], [115, 113]] ex_agent =
     [(ex_agent, \<lparr>outPack.dataType = PT_CanDoTimeout,
                   outPack.data = [114, 101, 118, 0, 0, 0, 0, 5], outPack.handle = []\<rparr>),
      (ex_agent, \<lparr>outPack.dataType = PT_CanDo, outPack.data = [115, 113], outPack.handle = []\<rparr>)]"
proof -
  have h: "distinct (map fst (funcs ex_worker2))" "distinct [[114, 101, 118], [115, 113 :: byte]]"
    "set [[114, 101, 118], [115, 113]] = set (map fst (funcs ex_worker2))"
    by (auto simp: ex_worker2_def New_def)
  have p: "PutUint32 5 = [0, 0, 0, 5]" by (simp add: PutUint32_def)
  from reRegister_encodes_table [OF h, of ex_agent "[114, 101, 118]" 5]
    reRegister_encodes_table [OF h, of ex_agent "[115, 113]" 5]
  have "prepFuncOutpack [114, 101, 118] 5 =
          \<lparr>outPack.dataType = PT_CanDoTimeout, outPack.data = [114, 101, 118, 0, 0, 0, 0, 5],
            outPack.handle = []\<rparr>"
    and "prepFuncOutpack [115, 113] 0 =
          \<lparr>outPack.dataType = PT_CanDo, outPack.data = [115, 113], outPack.handle = []\<rparr>"
    by (simp_all add: p)
  then show ?thesis
    by (simp add: reRegisterFuncsForAgent_def range_funcs_def map_filter_simps ex_worker2_def New_def)
qed

subsection \<open>C7: the initial registration runs at most once\<close>

text \<open>
  Claim C7 as stated: across any sequence of calls to \<open>Ready\<close> the initial broadcast
  of the function table is performed exactly once. That fails for a sequence in which no
  call gets as far as \<open>once.Do\<close>: the worker below has an agent and two functions, its
  only call to \<open>Ready\<close> finds the server refusing the connection, returns that error,
  and the broadcast has not been performed.
\<close>

theorem Ready_never_registers_counterexample:
  "\<not> (\<forall>worker cs. cs \<noteq> [] \<and> \<not> once_done worker \<longrightarrow>
         once_done (fst (Ready_calls worker cs)) \<and>
         (\<exists>order. concat (map snd (snd (Ready_calls worker cs))) = register_all worker order))"
proof
  assume a: "\<forall>worker cs. cs \<noteq> [] \<and> \<not> once_done worker \<longrightarrow>
         once_done (fst (Ready_calls worker cs)) \<and>
         (\<exists>order. concat (map snd (snd (Ready_calls worker cs))) = register_all worker order)"
  have "Ready_calls ex_worker2 [(connect_refused, ex_order)] =
          (ex_worker2, [(Some (UserError ''connection refused''), [])])"
    by (simp add: Ready_def ex_worker2_def New_def connect_refused_def)
  moreover from a [rule_format, of "[(connect_refused, ex_order)]" ex_worker2]
  have "once_done (fst (Ready_calls ex_worker2 [(connect_refused, ex_order)]))"
    by (simp add: ex_worker2_def New_def)
  ultimately show False by (simp add: ex_worker2_def New_def)
qed



lemma Ready_cases:
  assumes "Ready worker connect order = (worker', e, ws)"
  shows "agents worker' = agents worker \<and> funcs worker' = funcs worker \<and>
         (e \<noteq> None \<longrightarrow> worker' = worker \<and> ws = []) \<and>
         (e = None \<longrightarrow> once_done worker') \<and>
         (once_done worker \<longrightarrow> once_done worker' \<and> ws = []) \<and>
         (e = None \<and> \<not> once_done worker \<longrightarrow> ws = register_all worker order)"
  using assms unfolding Ready_def
  by (cases "connect_agents connect (agents worker)") (auto split: if_splits)

lemma register_all_cong:
  "agents w' = agents w \<Longrightarrow> funcs w' = funcs w \<Longrightarrow> register_all w' order = register_all w order"
  by (simp add: register_all_def addFunc_def broadcast_def)

lemma Ready_calls_once_done:
  "once_done worker \<Longrightarrow> Ready_calls worker cs = (worker', rs) \<Longrightarrow>
   once_done worker' \<and> concat (map snd rs) = []"
proof (induction cs arbitrary: worker worker' rs)
  case Nil
  then show ?case by simp
next
  case (Cons c cs)
  obtain connect order where c: "c = (connect, order)" by (cases c)
  obtain w1 e ws where r: "Ready worker connect order = (w1, e, ws)" by (cases "Ready worker connect order")
  obtain w2 rs' where rc: "Ready_calls w1 cs = (w2, rs')" by (cases "Ready_calls w1 cs")
  from Ready_cases [OF r] Cons.prems(1) have w1: "once_done w1" "ws = []" by simp_all
  from Cons.prems(2) c r rc have eq: "worker' = w2" "rs = (e, ws) # rs'" by simp_all
  from Cons.IH [OF w1(1) rc] w1 eq show ?case by simp
qed

lemma Ready_calls_fresh:
  "\<not> once_done worker \<Longrightarrow> Ready_calls worker cs = (worker', rs) \<Longrightarrow>
   ((\<forall>r \<in> set rs. fst r \<noteq> None) \<longrightarrow> concat (map snd rs) = [] \<and> \<not> once_done worker') \<and>
   ((\<exists>r \<in> set rs. fst r = None) \<longrightarrow>
      once_done worker' \<and> (\<exists>c \<in> set cs. concat (map snd rs) = register_all worker (snd c)))"
proof (induction cs arbitrary: worker worker' rs)
  case Nil
  then show ?case by simp
next
  case (Cons c cs)
  obtain connect order where c: "c = (connect, order)" by (cases c)
  obtain w1 e ws where r: "Ready worker connect order = (w1, e, ws)" by (cases "Ready worker connect order")
  obtain w2 rs' where rc: "Ready_calls w1 cs = (w2, rs')" by (cases "Ready_calls w1 cs")
  from Cons.prems(2) c r rc have eq: "worker' = w2" "rs = (e, ws) # rs'" by simp_all
  note rcs = Ready_cases [OF r]
  show ?case
  proof (cases e)
    case None
    with rcs Cons.prems(1) have w1: "once_done w1" and ws: "ws = register_all worker order" by simp_all
    from Ready_calls_once_done [OF w1 rc] have "once_done w2" "concat (map snd rs') = []" by simp_all
    with None eq ws c show ?thesis by auto
  next
    case (Some err)
    with rcs have w1: "w1 = worker" and ws: "ws = []" by simp_all
    from Cons.IH [OF _ rc [unfolded w1]] Cons.prems(1)
    have ih: "((\<forall>r \<in> set rs'. fst r \<noteq> None) \<longrightarrow> concat (map snd rs') = [] \<and> \<not> once_done w2) \<and>
              ((\<exists>r \<in> set rs'. fst r = None) \<longrightarrow>
                 once_done w2 \<and> (\<exists>c \<in> set cs. concat (map snd rs') = register_all worker (snd c)))"
      by simp
    with Some eq ws show ?thesis by auto
  qed
qed

text \<open>
  Claim C7, amended. Across any sequence of calls to \<open>Ready\<close> the initial broadcast
  of the function table is performed at most once per worker lifetime, and exactly once
  if some call of the sequence succeeds (returns nil): once it has been performed no call
  writes anything, so a second successful \<open>Ready\<close> does not re-broadcast; while every
  call fails (no agents, no functions, or a connection error) nothing is written and the
  broadcast is still to come; and when some call succeeds, all that the sequence has
  written is one broadcast of the table.
\<close>

theorem Ready_registers_once:
  assumes "Ready_calls worker cs = (worker', rs)"
  shows "(once_done worker \<longrightarrow> concat (map snd rs) = [] \<and> once_done worker') \<and>
         (\<not> once_done worker \<and> (\<forall>r \<in> set rs. fst r \<noteq> None) \<longrightarrow>
            concat (map snd rs) = [] \<and> \<not> once_done worker') \<and>
         (\<not> once_done worker \<and> (\<exists>r \<in> set rs. fst r = None) \<longrightarrow>
            once_done worker' \<and>
            (\<exists>c \<in> set cs. concat (map snd rs) = register_all worker (snd c)))"
  using Ready_calls_once_done [OF _ assms] Ready_calls_fresh [OF _ assms] by blast

lemma ex_Ready_calls:
  "Ready_calls ex_worker2 [(connect_refused, ex_order), (connect_ok, ex_order), (connect_ok, ex_order)] =
     (ex_worker2\<lparr>once_done := True, ready := True\<rparr>,
      [(Some (UserError ''connection refused''), []),
       (None, register_all ex_worker2 ex_order),
       (None, [])])"
  by (simp add: Ready_def ex_worker2_def New_def connect_ok_def connect_refused_def ex_agent_def)

theorem Ready_registers_once_witness:
  "concat (map snd (snd (Ready_calls ex_worker2
      [(connect_refused, ex_order), (connect_ok, ex_order), (connect_ok, ex_order)]))) =
     [(ex_agent, \<lparr>outPack.dataType = PT_CanDoTimeout,
                   outPack.data = [114, 101, 118, 0, 0, 0, 0, 5], outPack.handle = []\<rparr>),
      (ex_agent, \<lparr>outPack.dataType = PT_CanDo, outPack.data = [115, 113], outPack.handle = []\<rparr>)] \<and>
   concat (map snd (snd (Ready_calls (ex_worker2\<lparr>once_done := True\<rparr>)
      [(connect_ok, ex_order), (connect_ok, ex_order)]))) = [] \<and>
   concat (map snd (snd (Ready_calls ex_worker2
      [(connect_refused, ex_order), (connect_refused, ex_order)]))) = []"
proof -
  have reg: "register_all ex_worker2 ex_order =
     [(ex_agent, \<lparr>outPack.dataType = PT_CanDoTimeout,
                   outPack.data = [114, 101, 118, 0, 0, 0, 0, 5], outPack.handle = []\<rparr>),
      (ex_agent, \<lparr>outPack.dataType = PT_CanDo, outPack.data = [115, 113], outPack.handle = []\<rparr>)]"
    by (simp add: register_all_def range_funcs_def map_filter_simps ex_worker2_def New_def ex_order_def
        addFunc_def broadcast_def prepFuncOutpack_zero prepFuncOutpack_timeout PutUint32_def)
  have nd: "\<not> once_done ex_worker2" by (simp add: ex_worker2_def New_def)
  have 1: "concat (map snd (snd (Ready_calls ex_worker2
      [(connect_refused, ex_order), (connect_ok, ex_order), (connect_ok, ex_order)]))) =
      register_all ex_worker2 ex_order"
  proof -
    from Ready_registers_once [OF ex_Ready_calls] nd
    have "concat (map snd [(Some (UserError ''connection refused''), []),
            (None, register_all ex_worker2 ex_order), (None, [])]) =
          register_all ex_worker2 ex_order"
      by simp
    then show ?thesis by (simp only: ex_Ready_calls snd_conv)
  qed
  obtain w rs where 2: "Ready_calls (ex_worker2\<lparr>once_done := True\<rparr>)
      [(connect_ok, ex_order), (connect_ok, ex_order)] = (w, rs)"
    by (cases "Ready_calls (ex_worker2\<lparr>once_done := True\<rparr>) [(connect_ok, ex_order), (connect_ok, ex_order)]")
  obtain w' rs' where 3: "Ready_calls ex_worker2
      [(connect_refused, ex_order), (connect_refused, ex_order)] = (w', rs')"
    by (cases "Ready_calls ex_worker2 [(connect_refused, ex_order), (connect_refused, ex_order)]")
  have allerr: "\<forall>r \<in> set rs'. fst r \<noteq> None"
    using 3 by (auto simp: Ready_def ex_worker2_def New_def connect_refused_def)
  from Ready_registers_once [OF 2] have "concat (map snd rs) = []" by simp
  moreover from Ready_registers_once [OF 3] allerr nd have "concat (map snd rs') = []"
    by simp
  ultimately show ?thesis using 1 2 3 reg by simp
qed

subsection \<open>C8: the persistent subprocess\<close>

text \<open>
  Claim C8 as stated: the handler reads exactly one line of output per non-empty line of
  the payload. That fails for the payload of the two lines \<open>" "\<close> and \<open>"a"\<close>: both
  are non-empty, but \<open>strings.TrimSpace\<close> removes the first line together with its
  newline before the lines are counted, and the handler reads one line of output.
\<close>

theorem persistent_job_blank_line_counterexample:
  "\<not> (\<forall>cmd dat written lines res.
        processJobWithPersistentSubprocess cmd dat = (written, lines, res, None) \<longrightarrow>
        length lines = length (filter (\<lambda>l. l \<noteq> []) (Split dat NL)))"
proof
  assume a: "\<forall>cmd dat written lines res.
        processJobWithPersistentSubprocess cmd dat = (written, lines, res, None) \<longrightarrow>
        length lines = length (filter (\<lambda>l. l \<noteq> []) (Split dat NL))"
  have 1: "processJobWithPersistentSubprocess ex_cmd [32, 10, 97] =
          ([32, 10, 97, 10], [[120]], [120], None)"
    by code_simp
  have 2: "length (filter (\<lambda>l. l \<noteq> []) (Split [32, 10, 97] NL)) = 2"
    by code_simp
  from a [rule_format, OF 1] 2 show False by simp
qed

lemma ReadString_line: "NL \<notin> set l \<Longrightarrow> ReadString (l @ NL # rest) NL = (l @ [NL], Some rest)"
  by (simp add: ReadString_def IndexByte_first)

lemma TrimSuffix_NL: "TrimSuffix (l @ [NL]) [NL] = l"
  by (simp add: TrimSuffix_def HasSuffix_def)

lemma read_lines_all:
  "\<forall>l \<in> set ls. NL \<notin> set l \<Longrightarrow>
   length ls = length (filter (\<lambda>l. l \<noteq> []) ils) \<Longrightarrow>
   read_lines ils (concat (map (\<lambda>l. l @ [NL]) ls) @ rest) acc = Inr (acc @ ls)"
proof (induction ils arbitrary: ls acc)
  case Nil
  then show ?case by simp
next
  case (Cons i ils)
  show ?case
  proof (cases "i = []")
    case True
    with Cons show ?thesis by simp
  next
    case False
    with Cons.prems(2) obtain l ls' where ls: "ls = l # ls'" by (cases ls) auto
    with Cons.prems False have l: "NL \<notin> set l" and ls': "\<forall>l \<in> set ls'. NL \<notin> set l"
      and len: "length ls' = length (filter (\<lambda>l. l \<noteq> []) ils)" by simp_all
    have "read_lines (i # ils) (concat (map (\<lambda>l. l @ [NL]) ls) @ rest) acc =
          read_lines ils (concat (map (\<lambda>l. l @ [NL]) ls') @ rest) (acc @ [l])"
      using False by (simp add: ls ReadString_line [OF l] TrimSuffix_NL)
    also have "\<dots> = Inr ((acc @ [l]) @ ls')" by (rule Cons.IH [OF ls' len])
    finally show ?thesis by (simp add: ls)
  qed
qed

text \<open>
  Claim C8, amended. In the default (persistent subprocess) mode, with the subprocess
  alive and accepting the writes, each invocation of the handler writes the payload to
  the standard input of the subprocess, followed by a newline if the payload does not
  end with one; it then reads exactly one line of output per non-empty line of the
  payload trimmed of its leading and trailing white space (empty lines contribute no
  read), and, the subprocess providing these lines, returns them, without their
  newlines, joined with newlines.
\<close>

theorem persistent_job_reads_trimmed_lines:
  assumes "\<not> exited cmd" and "writes_ok cmd = None"
    and "stdout_data cmd = concat (map (\<lambda>l. l @ [NL]) ls) @ rest"
    and "\<forall>l \<in> set ls. NL \<notin> set l"
    and "length ls = length (filter (\<lambda>l. l \<noteq> []) (Split (TrimSpace dat) NL))"
  shows "processJobWithPersistentSubprocess cmd dat =
           (if HasSuffix dat [NL] then dat else dat @ [NL], ls, Join ls [NL], None)"
  using assms(1,2) read_lines_all [OF assms(4,5), of rest "[]"]
  by (simp add: processJobWithPersistentSubprocess_def Let_def assms(3))

theorem persistent_job_reads_trimmed_lines_witness:
  "processJobWithPersistentSubprocess ex_cmd [32, 10, 97] = ([32, 10, 97, 10], [[120]], [120], None) \<and>
   processJobWithPersistentSubprocess ex_cmd [97, 10, 10, 98, 10] =
     ([97, 10, 10, 98, 10], [[120], [121]], [120, 10, 121], None)"
proof -
  have c: "\<not> exited ex_cmd" "writes_ok ex_cmd = None" by (simp_all add: ex_cmd_def)
  have o1: "stdout_data ex_cmd = concat (map (\<lambda>l. l @ [NL]) [[120]]) @ [121, 10, 122, 10]"
    and o2: "stdout_data ex_cmd = concat (map (\<lambda>l. l @ [NL]) [[120], [121]]) @ [122, 10]"
    by (simp_all add: ex_cmd_def NL_def)
  have n1: "\<forall>l \<in> set [[120 :: byte]]. NL \<notin> set l"
    and n2: "\<forall>l \<in> set [[120 :: byte], [121]]. NL \<notin> set l" by (simp_all add: NL_def)
  have l1: "length [[120 :: byte]] = length (filter (\<lambda>l. l \<noteq> []) (Split (TrimSpace [32, 10, 97]) NL))"
    by code_simp
  have l2: "length [[120 :: byte], [121]] =
      length (filter (\<lambda>l. l \<noteq> []) (Split (TrimSpace [97, 10, 10, 98, 10]) NL))"
    by code_simp
  have s1: "\<not> HasSuffix [32, 10, 97] [NL]" and s2: "HasSuffix [97, 10, 10, 98, 10] [NL]"
    by code_simp+
  show ?thesis
    using persistent_job_reads_trimmed_lines [OF c o1 n1 l1]
      persistent_job_reads_trimmed_lines [OF c o2 n2 l2] s1 s2
    by (simp add: NL_def)
qed

subsection \<open>C9: the client command\<close>

text \<open>
  Claim C9 as stated: the input is split by the delimiter, newline by default, and
  exactly one job is submitted per non-empty token. That fails for the input of a
  carriage return and a newline with the default delimiter: the token before the newline
  is the carriage return, which is not empty, but the scanner's default split function
  drops a trailing carriage return, the token it yields is empty, and no job is
  submitted (the server here would complete every job).
\<close>

(*CEX9*)
lemma take_eq_imp_le:
  assumes "take (length d) ys = d"
  shows "length d \<le> length ys"
proof -
  from assms have "length (take (length d) ys) = length d" by simp
  then show ?thesis by simp
qed

lemma take_take_le: "n \<le> m \<Longrightarrow> take n (take m ys) = take n ys"
  by (simp add: min_def)

lemma find_delimiter_bound:
  "find_delimiter d xs = Some j \<Longrightarrow> j + length d \<le> length xs"
proof (induction xs arbitrary: j)
  case Nil
  then show ?case by simp
next
  case (Cons x xs)
  show ?case
  proof (cases "take (length d) (x # xs) = d")
    case True
    from take_eq_imp_le [OF True] have "length d \<le> length (x # xs)" .
    with True Cons.prems show ?thesis by simp
  next
    case False
    with Cons.prems obtain j' where "find_delimiter d xs = Some j'" and "j = Suc j'"
      by auto
    with Cons.IH show ?thesis by simp
  qed
qed

lemma find_delimiter_take:
  "find_delimiter d (take n xs) = Some j \<Longrightarrow> find_delimiter d xs = Some j"
proof (induction xs arbitrary: n j)
  case Nil
  then show ?case by simp
next
  case (Cons x xs)
  from Cons.prems obtain m where n: "n = Suc m" by (cases n) auto
  show ?case
  proof (cases "take (length d) (x # take m xs) = d")
    case True
    from take_eq_imp_le [OF True] have "length d \<le> Suc m" by simp
    from take_take_le [OF this, of "x # xs"]
    have "take (length d) (x # take m xs) = take (length d) (x # xs)" by simp
    with True Cons.prems n show ?thesis by simp
  next
    case False
    with Cons.prems n obtain j' where j': "find_delimiter d (take m xs) = Some j'" and j: "j = Suc j'"
      by auto
    from find_delimiter_bound [OF j'] have "length d \<le> m" by simp
    then have "length d \<le> Suc m" by simp
    from take_take_le [OF this, of "x # xs"]
    have "take (length d) (x # take m xs) = take (length d) (x # xs)" by simp
    with False have "take (length d) (x # xs) \<noteq> d" by simp
    with Cons.IH [OF j'] j show ?thesis by simp
  qed
qed

lemma find_delimiter_byte: "find_delimiter [c] xs = IndexByte xs c"
  by (induction xs) auto

lemma split_on_skip: "split_on d acc k xs = split_on d acc 0 (drop k xs)"
proof (induction xs arbitrary: k)
  case Nil
  then show ?case by simp
next
  case (Cons x xs)
  then show ?case by (cases k) simp_all
qed

lemma split_on_found:
  "d \<noteq> [] \<Longrightarrow> find_delimiter d xs = Some j \<Longrightarrow>
   split_on d acc 0 xs = (rev acc @ take j xs) # split_on d [] 0 (drop (j + length d) xs)"
proof (induction xs arbitrary: acc j)
  case Nil
  then show ?case by simp
next
  case (Cons x xs)
  show ?case
  proof (cases "take (length d) (x # xs) = d")
    case True
    with Cons.prems have j: "j = 0" by simp
    from Cons.prems(1) obtain k where k: "length d = Suc k" by (cases d) auto
    show ?thesis using True j k split_on_skip [of d "[]" k xs] by simp
  next
    case False
    with Cons.prems obtain j' where j': "find_delimiter d xs = Some j'" and j: "j = Suc j'"
      by auto
    from Cons.IH [OF Cons.prems(1) j', of "x # acc"] False j show ?thesis by simp
  qed
qed

lemma split_on_not_found:
  "find_delimiter d xs = None \<Longrightarrow> split_on d acc 0 xs = [rev acc @ xs]"
proof (induction xs arbitrary: acc)
  case Nil
  then show ?case by simp
next
  case (Cons x xs)
  then show ?case by (auto split: if_splits)
qed

lemma scanner_tokens_Nil: "scanner_tokens d [] = ([], False)"
  by (subst scanner_tokens.simps)
    (simp add: Scan_def split_func_def delimiterSplit_def ScanLines_def MaxScanTokenSize_def)

lemma Scan_delimiter:
  assumes "d \<noteq> []" and "d \<noteq> [NL]"
  shows "Scan d input =
           (case find_delimiter d (take MaxScanTokenSize input) of
              Some j \<Rightarrow> Token (take j input) (drop (j + length d) input)
            | None \<Rightarrow>
                if MaxScanTokenSize \<le> length input then TooLong
                else if input = [] then EndOfInput else Token input [])"
proof (cases "find_delimiter d (take MaxScanTokenSize input)")
  case None
  show ?thesis
  proof (cases "MaxScanTokenSize \<le> length input")
    case True
    with None assms show ?thesis by (simp add: Scan_def split_func_def delimiterSplit_def)
  next
    case False
    then have "take MaxScanTokenSize input = input" by simp
    with None False assms show ?thesis
      by (simp add: Scan_def split_func_def delimiterSplit_def)
  qed
next
  case (Some j)
  from find_delimiter_bound [OF Some] have "j \<le> MaxScanTokenSize" by simp
  then have "take j (take MaxScanTokenSize input) = take j input" by (rule take_take_le)
  with Some assms show ?thesis by (simp add: Scan_def split_func_def delimiterSplit_def)
qed

lemma Scan_lines:
  "Scan [NL] input =
     (case find_delimiter [NL] (take MaxScanTokenSize input) of
        Some j \<Rightarrow> Token (dropCR (take j input)) (drop (j + 1) input)
      | None \<Rightarrow>
          if MaxScanTokenSize \<le> length input then TooLong
          else if input = [] then EndOfInput else Token (dropCR input) [])"
proof (cases "find_delimiter [NL] (take MaxScanTokenSize input)")
  case None
  then have n: "IndexByte (take MaxScanTokenSize input) NL = None"
    by (simp add: find_delimiter_byte)
  show ?thesis
  proof (cases "MaxScanTokenSize \<le> length input")
    case True
    with None n show ?thesis by (simp add: Scan_def split_func_def ScanLines_def)
  next
    case False
    then have "take MaxScanTokenSize input = input" by simp
    with None n False show ?thesis
      by (simp add: Scan_def split_func_def ScanLines_def)
  qed
next
  case (Some j)
  then have n: "IndexByte (take MaxScanTokenSize input) NL = Some j"
    by (simp add: find_delimiter_byte)
  from find_delimiter_bound [OF Some] have "j \<le> MaxScanTokenSize" by simp
  then have "take j (take MaxScanTokenSize input) = take j input" by (rule take_take_le)
  with Some n show ?thesis by (simp add: Scan_def split_func_def ScanLines_def)
qed

lemma Scan_empty_delimiter:
  "Scan [] input =
     (if MaxScanTokenSize \<le> length input then TooLong
      else if input = [] then EndOfInput else Token input [])"
proof (cases "MaxScanTokenSize \<le> length input")
  case True
  then show ?thesis by (simp add: Scan_def split_func_def delimiterSplit_def NL_def)
next
  case False
  then have "take MaxScanTokenSize input = input" by simp
  with False show ?thesis by (simp add: Scan_def split_func_def delimiterSplit_def NL_def)
qed

lemma tokens_delimiter:
  assumes d: "d \<noteq> []" "d \<noteq> [NL]"
  shows "snd (scanner_tokens d input) = False \<Longrightarrow>
         filter (\<lambda>t. t \<noteq> []) (fst (scanner_tokens d input)) =
         filter (\<lambda>t. t \<noteq> []) (split_on d [] 0 input)"
proof (induction input rule: length_induct)
  case (1 input)
  show ?case
  proof (cases "find_delimiter d (take MaxScanTokenSize input)")
    case None
    show ?thesis
    proof (cases "MaxScanTokenSize \<le> length input")
      case True
      with None have "scanner_tokens d input = ([], True)"
        by (subst scanner_tokens.simps) (simp add: Scan_delimiter [OF d])
      with "1.prems" show ?thesis by simp
    next
      case False
      then have w: "take MaxScanTokenSize input = input" by simp
      with None have nf: "find_delimiter d input = None" by simp
      show ?thesis
      proof (cases "input = []")
        case True
        then show ?thesis by (simp add: scanner_tokens_Nil)
      next
        case nonempty: False
        with None False have "scanner_tokens d input = ([input], False)"
          by (subst scanner_tokens.simps) (simp add: Scan_delimiter [OF d] scanner_tokens_Nil)
        with split_on_not_found [OF nf, of "[]"] show ?thesis by simp
      qed
    qed
  next
    case (Some j)
    let ?rest = "drop (j + length d) input"
    from find_delimiter_take [OF Some] have f: "find_delimiter d input = Some j" .
    from find_delimiter_bound [OF f] d(1) have lt: "length ?rest < length input"
      by (cases d) auto
    obtain ts e where r: "scanner_tokens d ?rest = (ts, e)"
      by (cases "scanner_tokens d ?rest")
    from Some r have u: "scanner_tokens d input = (take j input # ts, e)"
      by (subst scanner_tokens.simps) (simp add: Scan_delimiter [OF d])
    from u "1.prems" have e: "e = False" by simp
    from "1.IH" [rule_format, OF lt] r e
    have "filter (\<lambda>t. t \<noteq> []) ts = filter (\<lambda>t. t \<noteq> []) (split_on d [] 0 ?rest)"
      by simp
    with u split_on_found [OF d(1) f, of "[]"] show ?thesis by simp
  qed
qed

lemma tokens_lines:
  "snd (scanner_tokens [NL] input) = False \<Longrightarrow>
   filter (\<lambda>t. t \<noteq> []) (fst (scanner_tokens [NL] input)) =
   filter (\<lambda>t. t \<noteq> []) (map dropCR (split_on [NL] [] 0 input))"
proof (induction input rule: length_induct)
  case (1 input)
  show ?case
  proof (cases "find_delimiter [NL] (take MaxScanTokenSize input)")
    case None
    show ?thesis
    proof (cases "MaxScanTokenSize \<le> length input")
      case True
      with None have "scanner_tokens [NL] input = ([], True)"
        by (subst scanner_tokens.simps) (simp add: Scan_lines)
      with "1.prems" show ?thesis by simp
    next
      case False
      then have w: "take MaxScanTokenSize input = input" by simp
      with None have nf: "find_delimiter [NL] input = None" by simp
      show ?thesis
      proof (cases "input = []")
        case True
        then show ?thesis by (simp add: scanner_tokens_Nil dropCR_def)
      next
        case nonempty: False
        with None False have "scanner_tokens [NL] input = ([dropCR input], False)"
          by (subst scanner_tokens.simps) (simp add: Scan_lines scanner_tokens_Nil)
        with split_on_not_found [OF nf, of "[]"] show ?thesis by simp
      qed
    qed
  next
    case (Some j)
    let ?rest = "drop (j + 1) input"
    from find_delimiter_take [OF Some] have f: "find_delimiter [NL] input = Some j" .
    from find_delimiter_bound [OF f] have lt: "length ?rest < length input" by simp
    obtain ts e where r: "scanner_tokens [NL] ?rest = (ts, e)"
      by (cases "scanner_tokens [NL] ?rest")
    from Some r have u: "scanner_tokens [NL] input = (dropCR (take j input) # ts, e)"
      by (subst scanner_tokens.simps) (simp add: Scan_lines)
    from u "1.prems" have e: "e = False" by simp
    from "1.IH" [rule_format, OF lt] r e
    have "filter (\<lambda>t. t \<noteq> []) ts =
        filter (\<lambda>t. t \<noteq> []) (map dropCR (split_on [NL] [] 0 ?rest))"
      by simp
    with u split_on_found [OF _ f, of "[]"] show ?thesis by simp
  qed
qed

lemma tokens_empty_delimiter:
  "snd (scanner_tokens [] input) = False \<Longrightarrow>
   filter (\<lambda>t. t \<noteq> []) (fst (scanner_tokens [] input)) = filter (\<lambda>t. t \<noteq> []) [input]"
proof (cases "MaxScanTokenSize \<le> length input")
  case True
  then have "scanner_tokens [] input = ([], True)"
    by (subst scanner_tokens.simps) (simp add: Scan_empty_delimiter)
  moreover assume "snd (scanner_tokens [] input) = False"
  ultimately show ?thesis by simp
next
  case False
  show ?thesis
  proof (cases "input = []")
    case True
    then show ?thesis by (simp add: scanner_tokens_Nil)
  next
    case nonempty: False
    with False have "scanner_tokens [] input = ([input], False)"
      by (subst scanner_tokens.simps) (simp add: Scan_empty_delimiter scanner_tokens_Nil)
    then show ?thesis by simp
  qed
qed

lemma scanner_tokens_spec:
  assumes "snd (scanner_tokens delimiter input) = False"
  shows "filter (\<lambda>t. t \<noteq> []) (fst (scanner_tokens delimiter input)) =
         filter (\<lambda>t. t \<noteq> []) (spec_tokens delimiter input)"
proof -
  consider "delimiter = [NL]" | "delimiter = []" | "delimiter \<noteq> [NL]" "delimiter \<noteq> []"
    by blast
  then show ?thesis
  proof cases
    case 1
    with assms tokens_lines [of input] show ?thesis by (simp add: spec_tokens_def split_by_def)
  next
    case 2
    with assms tokens_empty_delimiter [of input] show ?thesis
      by (simp add: spec_tokens_def NL_def)
  next
    case 3
    with assms tokens_delimiter [of delimiter input] show ?thesis
      by (simp add: spec_tokens_def split_by_def)
  qed
qed

lemma process_tokens_created:
  "process_tokens (\<lambda>k line. Created (resp k line)) toks run =
     run\<lparr>submitted := submitted run @ filter (\<lambda>t. t \<noteq> []) toks,
         stdout := stdout run @
           concat (map (\<lambda>(k, line). printed (resp k line))
                     (enumerate (length (submitted run)) (filter (\<lambda>t. t \<noteq> []) toks))),
         stderr := stderr run @
           concat (map (\<lambda>(k, line). complained (resp k line))
                     (enumerate (length (submitted run)) (filter (\<lambda>t. t \<noteq> []) toks)))\<rparr>"
proof (induction toks arbitrary: run)
  case Nil
  then show ?case by simp
next
  case (Cons t toks)
  show ?case
  proof (cases "t = []")
    case True
    with Cons show ?thesis by simp
  next
    case False
    then show ?thesis
      by (cases "resp (length (submitted run)) t") (simp_all add: Cons report_def)
  qed
qed

text \<open>
  Claim C9, amended. For every content of standard input in which no token outgrows the
  scanner's buffer (\<open>scanner.Err()\<close> is not \<open>ErrTooLong\<close>), and a server that
  accepts every submission: the input is split into tokens by the configured delimiter
  (with the default, newline, one trailing carriage return is also taken off each token;
  with an empty delimiter the whole input is one token); every empty token is skipped
  without submitting a job; exactly one job is submitted per non-empty token, in order,
  with the token as payload; for each job a result line is printed to standard output
  on \<open>WORK_COMPLETE\<close> and an error message to standard error on \<open>WORK_FAIL\<close>,
  \<open>WORK_EXCEPTION\<close> or a timeout; and the command returns no error.
\<close>

theorem runClient_jobs:
  assumes "snd (scanner_tokens delimiter input) = False"
    and "jobs = filter (\<lambda>t. t \<noteq> []) (spec_tokens delimiter input)"
  shows "runClient True delimiter input (\<lambda>k line. Created (resp k line)) =
           \<lparr>submitted = jobs,
            stdout = concat (map (\<lambda>(k, line). printed (resp k line)) (enumerate 0 jobs)),
            stderr = concat (map (\<lambda>(k, line). complained (resp k line)) (enumerate 0 jobs)),
            ret = None\<rparr>"
proof -
  obtain toks e where t: "scanner_tokens delimiter input = (toks, e)"
    by (cases "scanner_tokens delimiter input")
  with assms(1) have e: "e = False" by simp
  from scanner_tokens_spec [OF assms(1)] t assms(2)
  have j: "filter (\<lambda>t. t \<noteq> []) toks = jobs" by simp
  show ?thesis
    by (simp add: runClient_def t e process_tokens_created j)
qed



end
